(* ===== verification/Go_Prelude.thy ===== *)
theory Go_Prelude
  imports Main "HOL-Library.Word" "HOL-Library.Sublist" "HOL-Library.Multiset"
    "HOL-Library.Char_ord" "HOL-Library.List_Lexorder"
begin

text \<open>
  What every component of the model shares: Go's 64-bit signed integers with their
  wrap-around, Go maps with their unspecified iteration order, and the generic lemmas on
  maps, sorting and sums the component proofs use.

  A Go \<open>int\<close>, \<open>int64\<close> or \<open>time.Duration\<close> is an \<open>int\<close> here; the released binaries are
  built for amd64 and arm64 only, where all three are 64 bits wide. Every sum, difference
  or product of the source that can leave the range is written with \<open>wrap64\<close>.
\<close>

named_theorems wrap64_simps \<open>when 64-bit arithmetic is exact\<close>
named_theorems map_simps \<open>lookups in updated Go maps\<close>

section \<open>64-bit signed integers\<close>

type_synonym int64 = int

definition wrap64 :: "int \<Rightarrow> int64" where
  "wrap64 x = signed_take_bit 63 x"

definition in64 :: "int \<Rightarrow> bool" where
  "in64 x \<longleftrightarrow> - 9223372036854775808 \<le> x \<and> x < 9223372036854775808"

definition maxInt64 :: int64 where
  "maxInt64 = 9223372036854775807"

definition minInt64 :: int64 where
  "minInt64 = - 9223372036854775808"

lemma wrap64_id [wrap64_simps, simp]: "in64 x \<Longrightarrow> wrap64 x = x"
  by (simp add: wrap64_def in64_def signed_take_bit_int_eq_self_iff)

lemma wrap64_in64 [simp, intro]: "in64 (wrap64 x)"
  using signed_take_bit_int_greater_eq_minus_exp [of 63 x] signed_take_bit_int_less_exp [of 63 x]
  by (simp add: wrap64_def in64_def)

lemma wrap64_eq_iff: "wrap64 x = x \<longleftrightarrow> in64 x"
  by (metis wrap64_id wrap64_in64)

lemma wrap64_cong_mod: "x mod 2 ^ 64 = y mod 2 ^ 64 \<Longrightarrow> wrap64 x = wrap64 y"
  by (simp add: wrap64_def signed_take_bit_eq_iff_take_bit_eq take_bit_eq_mod)

lemma wrap64_mod: "wrap64 x mod 2 ^ 64 = x mod 2 ^ 64"
proof -
  have "take_bit (Suc 63) (wrap64 x) = take_bit (Suc 63) x"
    by (simp add: wrap64_def take_bit_signed_take_bit)
  then show ?thesis by (simp add: take_bit_eq_mod)
qed

lemma wrap64_add_left [simp]: "wrap64 (wrap64 x + y) = wrap64 (x + y)"
  by (rule wrap64_cong_mod) (metis mod_add_left_eq wrap64_mod)

lemma wrap64_add_right [simp]: "wrap64 (x + wrap64 y) = wrap64 (x + y)"
  by (metis add.commute wrap64_add_left)

lemma in64_nonneg_lt: "0 \<le> x \<Longrightarrow> x < 9223372036854775808 \<Longrightarrow> in64 x"
  by (simp add: in64_def)

section \<open>Go maps\<close>

text \<open>
  A Go map is a partial function with a finite domain. \<open>for k := range m\<close> visits the keys
  once each in an order the language leaves open: every loop over a map takes an iteration
  order \<open>it\<close>, which lists the key set, and the theorems hold for all of them.
\<close>

type_synonym 'k iter = "'k set \<Rightarrow> 'k list"

text \<open>
  \<open>visit it S\<close> is the order in which \<open>it\<close> visits \<open>S\<close>. An \<open>it\<close> that does not list \<open>S\<close> once stands
  for the sorted order, so every \<open>it\<close> is an order and every order is some \<open>it\<close>.
\<close>

definition visit :: "('k::linorder) iter \<Rightarrow> 'k iter" where
  "visit it S = (if distinct (it S) \<and> set (it S) = S then it S else sorted_list_of_set S)"

lemma distinct_visit [simp]: "distinct (visit it S)"
  by (simp add: visit_def)

lemma set_visit [simp]: "finite S \<Longrightarrow> set (visit it S) = S"
  by (simp add: visit_def)

lemma visit_empty [simp]: "visit it {} = []"
  by (simp add: visit_def)

lemma visit_singleton [simp]: "visit it {k} = [k]"
proof -
  have *: "set (visit it {k}) = {k}" "distinct (visit it {k})" by simp_all
  then obtain x ys where v: "visit it {k} = x # ys" by (cases "visit it {k}") auto
  with * have "x = k" "set ys \<subseteq> {k}" "k \<notin> set ys" by auto
  then show ?thesis using v by (cases ys) auto
qed

lemma mset_visit: "finite S \<Longrightarrow> mset (visit it S) = mset_set S"
  by (metis distinct_visit mset_set_set set_visit)

definition zero_of :: "'v \<Rightarrow> ('k \<rightharpoonup> 'v) \<Rightarrow> 'k \<Rightarrow> 'v" where
  "zero_of z m k = (case m k of None \<Rightarrow> z | Some v \<Rightarrow> v)"

lemma zero_of_Some [map_simps, simp]: "m k = Some v \<Longrightarrow> zero_of z m k = v"
  by (simp add: zero_of_def)

lemma zero_of_None [map_simps, simp]: "m k = None \<Longrightarrow> zero_of z m k = z"
  by (simp add: zero_of_def)

lemma zero_of_upd [map_simps]: "zero_of z (m(k \<mapsto> v)) k' = (if k' = k then v else zero_of z m k')"
  by (simp add: zero_of_def)

lemma finite_ran_dom [intro]: "finite (dom m) \<Longrightarrow> finite (ran m)"
  by (rule finite_ran)

text \<open>\<open>p\<close> if it is not nil, else \<open>q\<close>: the defaulting of pointer fields.\<close>

definition or_else :: "'a option \<Rightarrow> 'a option \<Rightarrow> 'a option" where
  "or_else p q = (case p of None \<Rightarrow> q | Some x \<Rightarrow> Some x)"

lemma or_else_simps [simp]: "or_else None q = q" "or_else (Some x) q = Some x" "or_else p None = p"
  by (simp_all add: or_else_def split: option.splits)

text \<open>A map filled by a loop over a slice: the last element with a key wins.\<close>

fun fill_map :: "('a \<Rightarrow> 'k) \<Rightarrow> ('k \<rightharpoonup> 'a) \<Rightarrow> 'a list \<Rightarrow> ('k \<rightharpoonup> 'a)" where
  "fill_map key m [] = m"
| "fill_map key m (x # xs) = fill_map key (m(key x \<mapsto> x)) xs"

lemma fill_map_append: "fill_map key m (xs @ ys) = fill_map key (fill_map key m xs) ys"
  by (induction xs arbitrary: m) auto

lemma dom_fill_map [simp]: "dom (fill_map key m xs) = dom m \<union> key ` set xs"
  by (induction xs arbitrary: m) auto

lemma fill_map_Some:
  "fill_map key m xs k = Some x \<Longrightarrow> (x \<in> set xs \<and> key x = k) \<or> (m k = Some x \<and> k \<notin> key ` set xs)"
  by (induction xs arbitrary: m) (fastforce split: if_splits)+

lemma fill_map_other: "k \<notin> key ` set xs \<Longrightarrow> fill_map key m xs k = m k"
  by (induction xs arbitrary: m) auto

lemma fill_map_last:
  assumes "x \<in> set xs" and "\<And>y. y \<in> set xs \<Longrightarrow> key y = key x \<Longrightarrow> y = x"
  shows "fill_map key m xs (key x) = Some x"
proof -
  have "key x \<in> dom (fill_map key m xs)" using assms(1) by simp
  then obtain y where y: "fill_map key m xs (key x) = Some y" by (auto simp only: dom_def)
  then show ?thesis using fill_map_Some [OF y] assms by auto
qed

lemma fill_map_distinct:
  "distinct (map key xs) \<Longrightarrow> x \<in> set xs \<Longrightarrow> fill_map key m xs (key x) = Some x"
  by (rule fill_map_last) (auto simp: distinct_map dest: inj_onD)

section \<open>sort.Slice\<close>

text \<open>
  \<open>sort.Slice\<close> orders by the given key and leaves ties in an unspecified order. The model
  takes the stable order; where the sorted slice was filled from a map, every order of the
  ties is the stable order for some iteration order.
\<close>

definition sort_slice :: "('a \<Rightarrow> int) \<Rightarrow> 'a list \<Rightarrow> 'a list" where
  "sort_slice key xs = sort_key key xs"

lemma set_sort_slice [simp]: "set (sort_slice key xs) = set xs"
  by (simp add: sort_slice_def)

lemma mset_sort_slice [simp]: "mset (sort_slice key xs) = mset xs"
  by (simp add: sort_slice_def)

lemma sorted_sort_slice [simp]: "sorted (map key (sort_slice key xs))"
  by (simp add: sort_slice_def)

lemma length_sort_slice [simp]: "length (sort_slice key xs) = length xs"
  by (simp add: sort_slice_def)

lemma distinct_map_mset_eq:
  "mset xs = mset ys \<Longrightarrow> distinct (map f xs) \<longleftrightarrow> distinct (map f ys)"
  by (metis mset_eq_imp_distinct_iff mset_map)

lemma distinct_map_sort_slice [simp]:
  "distinct (map f (sort_slice key xs)) \<longleftrightarrow> distinct (map f xs)"
  by (rule distinct_map_mset_eq) simp

section \<open>Lists\<close>

lemma sum_list_map_filter_le:
  fixes f :: "'a \<Rightarrow> int"
  assumes "\<And>x. x \<in> set xs \<Longrightarrow> 0 \<le> f x"
  shows "sum_list (map f (filter P xs)) \<le> sum_list (map f xs)"
  using assms by (induction xs) (auto simp: add_increasing)

lemma sum_list_none:
  fixes f :: "'a \<Rightarrow> int"
  assumes "k \<notin> key ` set xs"
  shows "sum_list (map (\<lambda>y. if key y = k then f y else 0) xs) = 0"
  using assms by (induction xs) auto

lemma sum_list_single:
  fixes f :: "'a \<Rightarrow> int"
  assumes "distinct (map key xs)" and "x \<in> set xs"
  shows "sum_list (map (\<lambda>y. if key y = key x then f y else 0) xs) = f x"
  using assms by (induction xs) (auto simp: sum_list_none)

section \<open>Encodings\<close>

text \<open>
  The interface of every encoding the program relies on: decimal node and user ids, hex
  strings, little-endian scalars. What an encoder must promise its clients is that the
  decoder gives back each value of its range.
\<close>

locale codec =
  fixes enc :: "'a \<Rightarrow> 'b"
    and dcd :: "'b \<Rightarrow> 'a option"
    and ok :: "'a \<Rightarrow> bool"
  assumes dcd_enc: "ok x \<Longrightarrow> dcd (enc x) = Some x"
begin

lemma enc_eq_iff: "ok x \<Longrightarrow> ok y \<Longrightarrow> enc x = enc y \<longleftrightarrow> x = y"
  by (metis dcd_enc option.inject)

lemma enc_inj_on: "(\<And>x. x \<in> A \<Longrightarrow> ok x) \<Longrightarrow> inj_on enc A"
  by (auto simp: inj_on_def enc_eq_iff)

end

text \<open>Two encodings one after the other: a scalar to bytes, the bytes to hex.\<close>

locale codec_chain = inner: codec enc1 dcd1 ok1 + outer: codec enc2 dcd2 ok2
  for enc1 :: "'a \<Rightarrow> 'b" and dcd1 and ok1 and enc2 :: "'b \<Rightarrow> 'c" and dcd2 and ok2 +
  assumes chain_ok: "ok1 x \<Longrightarrow> ok2 (enc1 x)"
begin

lemma chain_dcd_enc: "ok1 x \<Longrightarrow> Option.bind (dcd2 (enc2 (enc1 x))) dcd1 = Some x"
  by (simp add: inner.dcd_enc outer.dcd_enc chain_ok)

lemma chain_eq_iff: "ok1 x \<Longrightarrow> ok1 y \<Longrightarrow> enc2 (enc1 x) = enc2 (enc1 y) \<longleftrightarrow> x = y"
  by (metis chain_ok inner.enc_eq_iff outer.enc_eq_iff)

end

end
