(* ===== verification/Go_Strings.thy ===== *)
theory Go_Strings
  imports Go_Prelude
begin

text \<open>
  The string operations of Go's standard library that the program uses, on byte strings: a
  Go string is a \<open>string\<close>, one \<open>char\<close> per byte. \<open>TrimSpace\<close> removes every Unicode white
  space character by its UTF-8 encoding. \<open>ToLower\<close> lowers the ASCII letters and the two other
  characters whose lower case is ASCII (U+0130 and U+212A); the source compares lowered
  strings with ASCII names only, so the case of other characters, which it leaves alone
  here, never matters. Then the repository's own helpers over strings and integers.
\<close>

named_theorems trim_simps \<open>trimming and choosing strings\<close>

section \<open>TrimSpace and Trim\<close>

definition space_runes :: "string list" where
  "space_runes =
    [[CHR 0x09], [CHR 0x0A], [CHR 0x0B], [CHR 0x0C], [CHR 0x0D], [CHR 0x20],
     [CHR 0xC2, CHR 0x85], [CHR 0xC2, CHR 0xA0], [CHR 0xE1, CHR 0x9A, CHR 0x80],
     [CHR 0xE2, CHR 0x80, CHR 0x80], [CHR 0xE2, CHR 0x80, CHR 0x81],
     [CHR 0xE2, CHR 0x80, CHR 0x82], [CHR 0xE2, CHR 0x80, CHR 0x83],
     [CHR 0xE2, CHR 0x80, CHR 0x84], [CHR 0xE2, CHR 0x80, CHR 0x85],
     [CHR 0xE2, CHR 0x80, CHR 0x86], [CHR 0xE2, CHR 0x80, CHR 0x87],
     [CHR 0xE2, CHR 0x80, CHR 0x88], [CHR 0xE2, CHR 0x80, CHR 0x89],
     [CHR 0xE2, CHR 0x80, CHR 0x8A], [CHR 0xE2, CHR 0x80, CHR 0xA8],
     [CHR 0xE2, CHR 0x80, CHR 0xA9], [CHR 0xE2, CHR 0x80, CHR 0xAF],
     [CHR 0xE2, CHR 0x81, CHR 0x9F], [CHR 0xE3, CHR 0x80, CHR 0x80]]"

definition leading :: "string list \<Rightarrow> string \<Rightarrow> string option" where
  "leading ws s = find (\<lambda>r. r \<noteq> [] \<and> prefix r s) ws"

lemma leading_SomeD: "leading ws s = Some r \<Longrightarrow> r \<noteq> [] \<and> prefix r s \<and> r \<in> set ws"
  by (auto simp: leading_def find_Some_iff)

lemma leading_None_iff: "leading ws s = None \<longleftrightarrow> (\<forall>r \<in> set ws. r = [] \<or> \<not> prefix r s)"
  by (auto simp: leading_def find_None_iff)

function strip :: "string list \<Rightarrow> string \<Rightarrow> string" where
  "strip ws s = (case leading ws s of None \<Rightarrow> s | Some r \<Rightarrow> strip ws (drop (length r) s))"
  by pat_completeness auto
termination
proof (relation "measure (\<lambda>(ws, s). length s)", simp)
  fix ws s r
  assume "leading ws s = Some r"
  then have "r \<noteq> []" and "prefix r s" by (auto dest: leading_SomeD)
  then have "0 < length r" and "length r \<le> length s"
    by (simp_all add: prefix_length_le)
  then have "length s - length r < length s" by arith
  then show "((ws, drop (length r) s), ws, s) \<in> measure (\<lambda>(ws, s). length s)" by simp
qed

declare strip.simps [simp del]

lemma strip_fixed: "leading ws s = None \<Longrightarrow> strip ws s = s"
  by (simp add: strip.simps)

lemma leading_strip: "leading ws (strip ws s) = None"
proof (induction ws s rule: strip.induct)
  case (1 ws s)
  then show ?case
    by (cases "leading ws s") (simp_all add: strip.simps [of ws s])
qed

lemma suffix_strip: "suffix (strip ws s) s"
proof (induction ws s rule: strip.induct)
  case (1 ws s)
  show ?case
  proof (cases "leading ws s")
    case None
    then show ?thesis by (simp add: strip_fixed)
  next
    case (Some r)
    with 1 have "suffix (strip ws (drop (length r) s)) (drop (length r) s)" by simp
    with Some show ?thesis
      by (simp add: strip.simps [of ws s]) (metis suffix_drop suffix_order.trans)
  qed
qed

lemma leading_prefix_None: "leading ws s = None \<Longrightarrow> prefix t s \<Longrightarrow> leading ws t = None"
  unfolding leading_None_iff by (meson prefix_order.trans)

definition TrimSpace :: "string \<Rightarrow> string" where
  "TrimSpace s = rev (strip (map rev space_runes) (rev (strip space_runes s)))"

definition TrimQuotes :: "string \<Rightarrow> string" where
  "TrimQuotes s = rev (strip [[CHR 0x22]] (rev (strip [[CHR 0x22]] s)))"

definition trimmed :: "string \<Rightarrow> bool" where
  "trimmed s \<longleftrightarrow> leading space_runes s = None \<and> leading (map rev space_runes) (rev s) = None"

lemma TrimSpace_fixed [trim_simps, simp]: "trimmed s \<Longrightarrow> TrimSpace s = s"
  by (simp add: trimmed_def TrimSpace_def strip_fixed)

lemma trimmed_TrimSpace [trim_simps, simp]: "trimmed (TrimSpace s)"
proof -
  let ?l = "strip space_runes s"
  have "suffix (strip (map rev space_runes) (rev ?l)) (rev ?l)" by (rule suffix_strip)
  then have "prefix (TrimSpace s) ?l"
    unfolding TrimSpace_def by (simp add: suffix_to_prefix)
  with leading_strip have "leading space_runes (TrimSpace s) = None"
    by (rule leading_prefix_None)
  then show ?thesis by (simp add: trimmed_def TrimSpace_def leading_strip)
qed

lemma TrimSpace_idem [trim_simps]: "TrimSpace (TrimSpace s) = TrimSpace s"
  by simp

lemma TrimSpace_eq_iff: "TrimSpace s = s \<longleftrightarrow> trimmed s"
  by (metis TrimSpace_fixed trimmed_TrimSpace)

lemma space_runes_first_byte:
  "r \<in> set space_runes \<Longrightarrow> hd r \<in> {CHR 0x09, CHR 0x0A, CHR 0x0B, CHR 0x0C, CHR 0x0D, CHR 0x20,
     CHR 0xC2, CHR 0xE1, CHR 0xE2, CHR 0xE3} \<and> r \<noteq> []"
  by (auto simp: space_runes_def)

lemma space_runes_last_byte:
  "r \<in> set space_runes \<Longrightarrow> last r \<in> {CHR 0x09, CHR 0x0A, CHR 0x0B, CHR 0x0C, CHR 0x0D, CHR 0x20}
     \<or> 128 \<le> (of_char (last r) :: nat)"
  by (auto simp: space_runes_def)

text \<open>An ASCII string without white space is trimmed.\<close>

definition plain_char :: "char \<Rightarrow> bool" where
  "plain_char c \<longleftrightarrow> 32 < (of_char c :: nat) \<and> (of_char c :: nat) < 128"

lemma trimmed_plain [trim_simps]:
  assumes "list_all plain_char s"
  shows "trimmed s"
proof -
  have "leading space_runes s = None"
    unfolding leading_None_iff
  proof (intro ballI disjI2 notI)
    fix r assume r: "r \<in> set space_runes" and "prefix r s"
    with space_runes_first_byte [OF r] have "hd r \<in> set s"
      by (metis hd_in_set prefix_def set_append UnI1)
    with assms have "plain_char (hd r)" by (simp add: list_all_iff)
    with space_runes_first_byte [OF r] show False by (auto simp: plain_char_def)
  qed
  moreover have "leading (map rev space_runes) (rev s) = None"
    unfolding leading_None_iff
  proof (intro ballI disjI2 notI)
    fix r' assume "r' \<in> set (map rev space_runes)" and pre: "prefix r' (rev s)"
    then obtain r where r: "r \<in> set space_runes" "r' = rev r" by auto
    with space_runes_first_byte [of r] have "r \<noteq> []" by simp
    with r pre have "last r \<in> set s"
      by (metis hd_rev hd_in_set prefix_def rev_is_Nil_conv set_append set_rev UnI1)
    with assms have "plain_char (last r)" by (simp add: list_all_iff)
    with space_runes_last_byte [OF r(1)] show False by (auto simp: plain_char_def)
  qed
  ultimately show ?thesis by (simp add: trimmed_def)
qed

lemma trimmed_Nil [trim_simps, simp]: "trimmed []"
  by (rule trimmed_plain) simp

section \<open>ToLower\<close>

definition lower_char :: "char \<Rightarrow> char" where
  "lower_char c = (if 65 \<le> (of_char c :: nat) \<and> (of_char c :: nat) \<le> 90
     then char_of ((of_char c :: nat) + 32) else c)"

function ToLower :: "string \<Rightarrow> string" where
  "ToLower s =
     (if prefix [CHR 0xC4, CHR 0xB0] s then CHR ''i'' # ToLower (drop 2 s)
      else if prefix [CHR 0xE2, CHR 0x84, CHR 0xAA] s then CHR ''k'' # ToLower (drop 3 s)
      else case s of [] \<Rightarrow> [] | c # cs \<Rightarrow> lower_char c # ToLower cs)"
  by pat_completeness auto
termination
  by (relation "measure length") (auto simp: prefix_def)

declare ToLower.simps [simp del]

lemma ToLower_Nil [simp]: "ToLower [] = []"
  by (simp add: ToLower.simps)

lemma ToLower_ascii_Cons:
  "(of_char c :: nat) < 128 \<Longrightarrow> ToLower (c # cs) = lower_char c # ToLower cs"
  by (subst ToLower.simps) auto

lemma ToLower_ascii:
  "list_all (\<lambda>c. (of_char c :: nat) < 128) s \<Longrightarrow> ToLower s = map lower_char s"
  by (induction s) (simp_all add: ToLower_ascii_Cons)

section \<open>Decimal numbers: Itoa and Atoi\<close>

definition digit :: "nat \<Rightarrow> char" where
  "digit d = char_of (48 + d)"

definition is_digit :: "char \<Rightarrow> bool" where
  "is_digit c \<longleftrightarrow> 48 \<le> (of_char c :: nat) \<and> (of_char c :: nat) \<le> 57"

definition digit_val :: "char \<Rightarrow> nat" where
  "digit_val c = of_char c - 48"

lemma of_char_digit: "d < 10 \<Longrightarrow> (of_char (digit d) :: nat) = 48 + d"
  by (simp add: digit_def of_char_of)

lemma digit_val_digit [simp]: "d < 10 \<Longrightarrow> digit_val (digit d) = d"
  by (simp add: digit_val_def of_char_digit)

lemma is_digit_digit [simp]: "d < 10 \<Longrightarrow> is_digit (digit d)"
  by (simp add: is_digit_def of_char_digit)

fun dec :: "nat \<Rightarrow> string" where
  "dec n = (if n < 10 then [digit n] else dec (n div 10) @ [digit (n mod 10)])"

declare dec.simps [simp del]

definition Itoa :: "int \<Rightarrow> string" where
  "Itoa i = (if i < 0 then CHR ''-'' # dec (nat (- i)) else dec (nat i))"

definition maxUint64 :: nat where
  "maxUint64 = 18446744073709551615"

fun parseUint :: "nat \<Rightarrow> string \<Rightarrow> nat option" where
  "parseUint n [] = Some n"
| "parseUint n (c # cs) =
     (if is_digit c
      then if n * 10 + digit_val c > maxUint64 then Some maxUint64
           else parseUint (n * 10 + digit_val c) cs
      else None)"

definition parse_digits :: "string \<Rightarrow> nat option" where
  "parse_digits s = (if s = [] then None else parseUint 0 s)"

text \<open>
  \<open>i, _ := strconv.Atoi(s)\<close>: the value the call returns beside its error, 0 for a string
  that is no number and the nearest bound for a number out of range.
\<close>

definition Atoi :: "string \<Rightarrow> int64" where
  "Atoi s =
     (let neg = (s \<noteq> [] \<and> hd s = CHR ''-'');
          body = (if s \<noteq> [] \<and> (hd s = CHR ''-'' \<or> hd s = CHR ''+'') then tl s else s)
      in case parse_digits body of
           None \<Rightarrow> 0
         | Some un \<Rightarrow>
             if \<not> neg \<and> int un \<ge> 2 ^ 63 then maxInt64
             else if neg \<and> int un > 2 ^ 63 then minInt64
             else if neg then - int un else int un)"

lemma dec_digits: "c \<in> set (dec n) \<Longrightarrow> is_digit c"
proof (induction n rule: dec.induct)
  case (1 n)
  then show ?case
    by (cases "n < 10") (auto simp: dec.simps [of n])
qed

lemma dec_nonempty [simp]: "dec n \<noteq> []"
  by (subst dec.simps) simp

lemma is_digit_neq: "is_digit c \<Longrightarrow> c \<noteq> CHR ''-'' \<and> c \<noteq> CHR ''+'' \<and> c \<noteq> CHR ''|'' \<and> c \<noteq> CHR '':''
   \<and> c \<noteq> CHR ''['' \<and> c \<noteq> CHR '']''"
  by (auto simp: is_digit_def)

lemma parseUint_append:
  "parseUint a s = Some b \<Longrightarrow> b * 10 + digit_val c \<le> maxUint64 \<Longrightarrow> b < maxUint64 \<Longrightarrow> is_digit c \<Longrightarrow>
   parseUint a (s @ [c]) = Some (b * 10 + digit_val c)"
  by (induction a s rule: parseUint.induct) (auto split: if_splits)

lemma parseUint_dec: "n \<le> maxUint64 \<Longrightarrow> parseUint 0 (dec n) = Some n"
proof (induction n rule: dec.induct)
  case (1 n)
  show ?case
  proof (cases "n < 10")
    case True
    then show ?thesis by (simp add: dec.simps [of n] maxUint64_def)
  next
    case False
    with 1 have IH: "parseUint 0 (dec (n div 10)) = Some (n div 10)" by simp
    have "parseUint 0 (dec (n div 10) @ [digit (n mod 10)]) = Some (n div 10 * 10 + digit_val (digit (n mod 10)))"
      using IH 1(2) False by (intro parseUint_append) (auto simp: maxUint64_def)
    with False show ?thesis by (simp add: dec.simps [of n])
  qed
qed

lemma Itoa_nonempty [simp]: "Itoa i \<noteq> []"
  by (simp add: Itoa_def)

lemma Atoi_Itoa: "in64 i \<Longrightarrow> Atoi (Itoa i) = i"
proof -
  assume i: "in64 i"
  show ?thesis
  proof (cases "i < 0")
    case True
    with i have "parseUint 0 (dec (nat (- i))) = Some (nat (- i))"
      by (intro parseUint_dec) (auto simp: in64_def maxUint64_def)
    with True i show ?thesis
      by (auto simp: Itoa_def Atoi_def parse_digits_def in64_def)
  next
    case False
    with i have "parseUint 0 (dec (nat i)) = Some (nat i)"
      by (intro parseUint_dec) (auto simp: in64_def maxUint64_def)
    moreover have "is_digit (hd (dec (nat i)))" using dec_digits [of "hd (dec (nat i))" "nat i"] by simp
    then have "hd (dec (nat i)) \<noteq> CHR ''-''" "hd (dec (nat i)) \<noteq> CHR ''+''"
      using is_digit_neq by blast+
    ultimately show ?thesis using False i
      by (auto simp: Itoa_def Atoi_def parse_digits_def in64_def Let_def)
  qed
qed

interpretation itoa: codec Itoa "\<lambda>s. Some (Atoi s)" in64
  by unfold_locales (simp add: Atoi_Itoa)

lemma in64_Atoi: "in64 (Atoi s)"
  by (auto simp: Atoi_def in64_def maxInt64_def minInt64_def Let_def split: option.splits)

lemma Itoa_chars: "c \<in> set (Itoa i) \<Longrightarrow> c = CHR ''-'' \<or> is_digit c"
  by (auto simp: Itoa_def dest: dec_digits split: if_splits)

lemma Itoa_no_sep [simp]:
  "CHR ''|'' \<notin> set (Itoa i)" "CHR '':'' \<notin> set (Itoa i)" "CHR ''['' \<notin> set (Itoa i)" "CHR '']'' \<notin> set (Itoa i)"
  using is_digit_neq by (fastforce dest: Itoa_chars)+

text \<open>Two strings that share a separator neither first part holds agree on both sides of it.\<close>

lemma sep_split:
  assumes "a @ [c] @ x = b @ [c] @ y" and "c \<notin> set a" and "c \<notin> set b"
  shows "a = b \<and> x = y"
  using assms
proof (induction a arbitrary: b)
  case Nil
  then show ?case by (cases b) auto
next
  case (Cons d a)
  then show ?case by (cases b) auto
qed

section \<open>FieldsFunc and the repository's helpers\<close>

fun FieldsFunc :: "(char \<Rightarrow> bool) \<Rightarrow> string \<Rightarrow> string \<Rightarrow> string list" where
  "FieldsFunc f acc [] = (if acc = [] then [] else [rev acc])"
| "FieldsFunc f acc (c # cs) =
     (if f c then (if acc = [] then FieldsFunc f [] cs else rev acc # FieldsFunc f [] cs)
      else FieldsFunc f (c # acc) cs)"

lemma FieldsFunc_no_sep:
  "\<forall>c \<in> set acc. \<not> f c \<Longrightarrow> w \<in> set (FieldsFunc f acc s) \<Longrightarrow> w \<noteq> [] \<and> (\<forall>c \<in> set w. \<not> f c)"
proof (induction s arbitrary: acc)
  case Nil
  then show ?case by (simp split: if_splits)
next
  case (Cons c s)
  show ?case
  proof (cases "f c")
    case True
    with Cons.prems(2) have "(w = rev acc \<and> acc \<noteq> []) \<or> w \<in> set (FieldsFunc f [] s)"
      by (cases "acc = []") simp_all
    moreover have "w = rev acc \<and> acc \<noteq> [] \<Longrightarrow> ?thesis" using Cons.prems(1) by simp
    moreover have "w \<in> set (FieldsFunc f [] s) \<Longrightarrow> ?thesis" by (rule Cons.IH) simp_all
    ultimately show ?thesis by blast
  next
    case False
    show ?thesis
    proof (rule Cons.IH)
      show "\<forall>d \<in> set (c # acc). \<not> f d" using False Cons.prems(1) by simp
      show "w \<in> set (FieldsFunc f (c # acc) s)" using False Cons.prems(2) by simp
    qed
  qed
qed

fun firstNonEmpty :: "string list \<Rightarrow> string" where
  "firstNonEmpty [] = []"
| "firstNonEmpty (v # vs) =
     (let value = TrimSpace v in if value \<noteq> [] then value else firstNonEmpty vs)"

fun firstNonZero :: "int list \<Rightarrow> int" where
  "firstNonZero [] = 0"
| "firstNonZero (v # vs) = (if v \<noteq> 0 then v else firstNonZero vs)"

lemma trimmed_firstNonEmpty [trim_simps, simp]: "trimmed (firstNonEmpty vs)"
  by (induction vs) (auto simp: Let_def)

lemma firstNonEmpty_Nil_iff: "firstNonEmpty vs = [] \<longleftrightarrow> (\<forall>v \<in> set vs. TrimSpace v = [])"
  by (induction vs) (auto simp: Let_def)

lemma firstNonEmpty_eq:
  "firstNonEmpty vs = (case find (\<lambda>v. TrimSpace v \<noteq> []) vs of None \<Rightarrow> [] | Some v \<Rightarrow> TrimSpace v)"
  by (induction vs) (auto simp: Let_def)

lemma firstNonEmpty_trimmed_hd [trim_simps]:
  "trimmed v \<Longrightarrow> v \<noteq> [] \<Longrightarrow> firstNonEmpty (v # vs) = v"
  by simp

lemma firstNonZero_eq_0_iff: "firstNonZero vs = 0 \<longleftrightarrow> (\<forall>v \<in> set vs. v = 0)"
  by (induction vs) auto

lemma firstNonZero_mem: "firstNonZero vs \<noteq> 0 \<Longrightarrow> firstNonZero vs \<in> set vs"
  by (induction vs) (auto split: if_splits)

section \<open>Host and port\<close>

text \<open>
  \<open>net.JoinHostPort\<close> and \<open>net.SplitHostPort\<close>: a host with a colon or a percent sign is put in
  brackets; \<open>SplitHostPort\<close> cuts at the last colon, and fails on a bracket or a colon that
  does not fit.
\<close>

definition JoinHostPort :: "string \<Rightarrow> string \<Rightarrow> string" where
  "JoinHostPort host port =
     (if CHR '':'' \<in> set host \<or> CHR ''%'' \<in> set host then ''['' @ host @ '']:'' @ port
      else host @ '':'' @ port)"

fun cut_last :: "char \<Rightarrow> string \<Rightarrow> (string \<times> string) option" where
  "cut_last c [] = None"
| "cut_last c (x # xs) =
     (case cut_last c xs of
        Some (a, b) \<Rightarrow> Some (x # a, b)
      | None \<Rightarrow> if x = c then Some ([], xs) else None)"

fun cut_first :: "char \<Rightarrow> string \<Rightarrow> (string \<times> string) option" where
  "cut_first c [] = None"
| "cut_first c (x # xs) =
     (if x = c then Some ([], xs) else map_option (\<lambda>(a, b). (x # a, b)) (cut_first c xs))"

definition SplitHostPort :: "string \<Rightarrow> (string \<times> string) option" where
  "SplitHostPort s =
     (case cut_last (CHR '':'') s of
        None \<Rightarrow> None
      | Some (before, port) \<Rightarrow>
          if take 1 s = ''['' then
            (case cut_first (CHR '']'') (drop 1 s) of
               None \<Rightarrow> None
             | Some (host, rest) \<Rightarrow>
                 if rest = '':'' @ port \<and> CHR ''['' \<notin> set host \<and> CHR ''['' \<notin> set port \<and> CHR '']'' \<notin> set port
                 then Some (host, port) else None)
          else if CHR '':'' \<in> set before \<or> CHR ''['' \<in> set s \<or> CHR '']'' \<in> set s then None
          else Some (before, port))"

lemma cut_last_append: "c \<notin> set b \<Longrightarrow> cut_last c (a @ c # b) = Some (a, b)"
proof -
  have "cut_last c b = None" if "c \<notin> set b" for b
    using that by (induction b) auto
  then show "c \<notin> set b \<Longrightarrow> ?thesis" by (induction a) auto
qed

lemma cut_first_append: "c \<notin> set a \<Longrightarrow> cut_first c (a @ c # b) = Some (a, b)"
  by (induction a) auto

definition plain_host :: "string \<Rightarrow> bool" where
  "plain_host h \<longleftrightarrow> CHR ''['' \<notin> set h \<and> CHR '']'' \<notin> set h"

definition plain_port :: "string \<Rightarrow> bool" where
  "plain_port p \<longleftrightarrow> CHR '':'' \<notin> set p \<and> CHR ''['' \<notin> set p \<and> CHR '']'' \<notin> set p"

text \<open>Any host and port come back, IPv6 addresses and zones included.\<close>

lemma SplitHostPort_Join:
  assumes "plain_host h" and "plain_port p"
  shows "SplitHostPort (JoinHostPort h p) = Some (h, p)"
proof (cases "CHR '':'' \<in> set h \<or> CHR ''%'' \<in> set h")
  case True
  have "cut_last (CHR '':'') ((''['' @ h @ '']'') @ CHR '':'' # p) = Some (''['' @ h @ '']'', p)"
    using assms(2) by (intro cut_last_append) (simp add: plain_port_def)
  moreover have "cut_first (CHR '']'') (h @ CHR '']'' # CHR '':'' # p) = Some (h, CHR '':'' # p)"
    using assms(1) by (intro cut_first_append) (simp add: plain_host_def)
  ultimately show ?thesis
    using True assms by (simp add: SplitHostPort_def JoinHostPort_def plain_host_def plain_port_def)
next
  case False
  have "cut_last (CHR '':'') (h @ CHR '':'' # p) = Some (h, p)"
    using assms(2) by (intro cut_last_append) (simp add: plain_port_def)
  moreover have "take 1 (h @ '':'' @ p) \<noteq> ''[''"
    using assms(1) by (cases h) (auto simp: plain_host_def)
  ultimately show ?thesis
    using False assms by (auto simp: SplitHostPort_def JoinHostPort_def plain_host_def plain_port_def)
qed

interpretation host_port: codec "\<lambda>(h, p). JoinHostPort h p" SplitHostPort
  "\<lambda>(h, p). plain_host h \<and> plain_port p"
  by unfold_locales (auto simp: SplitHostPort_Join)

lemma plain_port_Itoa [simp]: "plain_port (Itoa i)"
  by (simp add: plain_port_def)

section \<open>File paths\<close>

text \<open>
  \<open>path/filepath\<close> on a Unix system: \<open>Clean\<close> drops empty and dot elements and resolves dot-dot
  where it can; \<open>Join\<close> cleans its nonempty arguments put together.
\<close>

fun splitOn :: "char \<Rightarrow> string \<Rightarrow> string \<Rightarrow> string list" where
  "splitOn c cur [] = [rev cur]"
| "splitOn c cur (x # xs) = (if x = c then rev cur # splitOn c [] xs else splitOn c (x # cur) xs)"

fun joinWith :: "string \<Rightarrow> string list \<Rightarrow> string" where
  "joinWith sep [] = ''''"
| "joinWith sep [x] = x"
| "joinWith sep (x # y # ys) = x @ sep @ joinWith sep (y # ys)"

fun cleanElements :: "bool \<Rightarrow> string list \<Rightarrow> string list \<Rightarrow> string list" where
  "cleanElements rooted out [] = rev out"
| "cleanElements rooted out (x # xs) =
     (if x = '''' \<or> x = ''.'' then cleanElements rooted out xs
      else if x = ''..'' then
        (if out \<noteq> [] \<and> hd out \<noteq> ''..'' then cleanElements rooted (tl out) xs
         else if rooted then cleanElements rooted out xs
         else cleanElements rooted (''..'' # out) xs)
      else cleanElements rooted (x # out) xs)"

definition Clean :: "string \<Rightarrow> string" where
  "Clean p =
     (let rooted = (take 1 p = ''/'');
          body = joinWith ''/'' (cleanElements rooted [] (splitOn (CHR ''/'') [] p))
      in if rooted then ''/'' @ body else if body = '''' then ''.'' else body)"

definition JoinPath :: "string list \<Rightarrow> string" where
  "JoinPath elems =
     (let es = filter (\<lambda>e. e \<noteq> '''') elems in if es = [] then '''' else Clean (joinWith ''/'' es))"

section \<open>Containment\<close>

text \<open>\<open>strings.Contains\<close>.\<close>

fun contains :: "string \<Rightarrow> string \<Rightarrow> bool" where
  "contains [] sub \<longleftrightarrow> sub = []"
| "contains (x # xs) sub \<longleftrightarrow> prefix sub (x # xs) \<or> contains xs sub"

lemma contains_iff: "contains s sub \<longleftrightarrow> sublist sub s"
  by (induction s) (auto simp: sublist_Cons_right)

end
