(* ===== verification/Go_Bytes.thy ===== *)
theory Go_Bytes
  imports Go_Strings
begin

text \<open>
  Byte slices: hexadecimal text (\<open>encoding/hex\<close>), big integers (\<open>math/big\<close>) and the
  little-endian scalars of \<open>internal/runtime/key_store.go\<close>. The byte-reversing loops of
  \<open>littleEndianScalar\<close> and \<open>scalarLittleEndian\<close> are modelled as the index loops they are and
  proved equal to positional arithmetic.
\<close>

type_synonym byte = "8 word"

definition bytes_of :: "string \<Rightarrow> byte list" where
  "bytes_of s = map of_char s"

lemma length_bytes_of [simp]: "length (bytes_of s) = length s"
  by (simp add: bytes_of_def)

lemma of_char_word_inj: "(of_char c :: byte) = of_char d \<longleftrightarrow> c = d"
proof
  assume "(of_char c :: byte) = of_char d"
  then have "unat (of_nat (of_char c) :: byte) = unat (of_nat (of_char d) :: byte)"
    by (simp only: of_nat_of_char)
  then have "(of_char c :: nat) = of_char d"
    using nat_of_char_less_256 [of c] nat_of_char_less_256 [of d] by (simp add: unat_of_nat)
  then show "c = d" by simp
qed simp

lemma bytes_of_inj [simp]: "bytes_of s = bytes_of t \<longleftrightarrow> s = t"
  unfolding bytes_of_def by (rule inj_map_eq_map) (simp add: inj_def of_char_word_inj)

section \<open>Hexadecimal\<close>

definition hexVal :: "char \<Rightarrow> nat option" where
  "hexVal c = (let n = of_char c :: nat in
     if 48 \<le> n \<and> n \<le> 57 then Some (n - 48)
     else if 97 \<le> n \<and> n \<le> 102 then Some (n - 87)
     else if 65 \<le> n \<and> n \<le> 70 then Some (n - 55)
     else None)"

definition hexDigit :: "nat \<Rightarrow> char" where
  "hexDigit n = (if n < 10 then char_of (48 + n) else char_of (87 + n))"

fun hexDecode :: "string \<Rightarrow> byte list option" where
  "hexDecode [] = Some []"
| "hexDecode [c] = None"
| "hexDecode (a # b # s) =
     (case (hexVal a, hexVal b) of
        (Some x, Some y) \<Rightarrow> map_option (\<lambda>bs. word_of_nat (16 * x + y) # bs) (hexDecode s)
      | _ \<Rightarrow> None)"

fun hexEncode :: "byte list \<Rightarrow> string" where
  "hexEncode [] = []"
| "hexEncode (b # bs) = hexDigit (unat b div 16) # hexDigit (unat b mod 16) # hexEncode bs"

lemma hexVal_hexDigit [simp]: "n < 16 \<Longrightarrow> hexVal (hexDigit n) = Some n"
  by (simp add: hexVal_def hexDigit_def of_char_of)

lemma unat_byte_less [simp]: "unat (b :: byte) < 256"
proof -
  have "unat b < 2 ^ LENGTH(8)" by (rule unsigned_less)
  then show ?thesis by simp
qed

lemma unat_byte_div [simp]: "unat (b :: byte) div 16 < 16"
  using unat_byte_less [of b] by (simp add: less_mult_imp_div_less)

lemma hexDecode_hexEncode: "hexDecode (hexEncode bs) = Some bs"
proof (induction bs)
  case (Cons b bs)
  then show ?case by simp
qed simp

lemma length_hexEncode [simp]: "length (hexEncode bs) = 2 * length bs"
  by (induction bs) auto

lemma hexDecode_length: "hexDecode s = Some bs \<Longrightarrow> length s = 2 * length bs"
  by (induction s arbitrary: bs rule: hexDecode.induct) (auto split: option.splits)

lemma hexDigit_plain: "n < 16 \<Longrightarrow> plain_char (hexDigit n)"
  by (simp add: hexDigit_def plain_char_def of_char_of)

lemma trimmed_hexEncode [trim_simps, simp]: "trimmed (hexEncode bs)"
proof (rule trimmed_plain)
  show "list_all plain_char (hexEncode bs)"
  proof (induction bs)
    case (Cons b bs)
    then show ?case by (simp add: hexDigit_plain)
  qed simp
qed

interpretation hex: codec hexEncode hexDecode "\<lambda>_. True"
  by unfold_locales (simp add: hexDecode_hexEncode)

section \<open>Big integers\<close>

text \<open>\<open>SetBytes\<close> reads big-endian bytes; \<open>Bytes\<close> writes the shortest big-endian bytes.\<close>

definition SetBytes :: "byte list \<Rightarrow> int" where
  "SetBytes buf = foldl (\<lambda>v b. 256 * v + uint b) 0 buf"

fun BytesBE :: "nat \<Rightarrow> byte list" where
  "BytesBE n = (if n = 0 then [] else BytesBE (n div 256) @ [word_of_nat (n mod 256)])"

declare BytesBE.simps [simp del]

fun leVal :: "byte list \<Rightarrow> int" where
  "leVal [] = 0"
| "leVal (b # bs) = uint b + 256 * leVal bs"

lemma SetBytes_rev: "SetBytes (rev bs) = leVal bs"
  by (induction bs) (simp_all add: SetBytes_def)

lemma leVal_nonneg [simp]: "0 \<le> leVal bs"
  by (induction bs) auto

lemma leVal_less: "leVal bs < 256 ^ length bs"
proof (induction bs)
  case (Cons b bs)
  have "uint b < 256" using uint_lt2p [of b] by simp
  moreover have "leVal bs + 1 \<le> 256 ^ length bs" using Cons by simp
  then have "256 * (leVal bs + 1) \<le> 256 * 256 ^ length bs" by (rule mult_left_mono) simp
  ultimately show ?case by simp
qed simp

lemma leVal_append: "leVal (xs @ ys) = leVal xs + 256 ^ length xs * leVal ys"
  by (induction xs) (simp_all add: algebra_simps)

lemma leVal_inj: "length xs = length ys \<Longrightarrow> leVal xs = leVal ys \<Longrightarrow> xs = ys"
proof (induction xs ys rule: list_induct2)
  case (Cons x xs y ys)
  have lt: "uint x < 256" "uint y < 256" using uint_lt2p [of x] uint_lt2p [of y] by simp_all
  have "(uint x + 256 * leVal xs) mod 256 = (uint y + 256 * leVal ys) mod 256"
    using Cons.prems by simp
  then have "uint x = uint y" using lt by simp
  moreover from this Cons.prems have "xs = ys" using Cons.IH by simp
  ultimately show ?case by (simp add: word_uint_eq_iff)
qed simp

section \<open>littleEndianScalar and scalarLittleEndian\<close>

definition littleEndianScalar :: "byte list \<Rightarrow> int" where
  "littleEndianScalar inp =
     (let buf = fold (\<lambda>i buf. buf[length inp - 1 - i := inp ! i]) [0..<length inp]
                  (replicate (length inp) 0)
      in SetBytes buf)"

definition scalarLittleEndian :: "int \<Rightarrow> byte list" where
  "scalarLittleEndian v =
     (let bigEndian = BytesBE (nat \<bar>v\<bar>)
      in fold (\<lambda>i out. out[i := bigEndian ! (length bigEndian - 1 - i)])
           [0..<min (length bigEndian) 32] (replicate 32 0))"

lemma length_fold_update: "length (fold (\<lambda>i xs. xs[f i := g i]) is xs) = length xs"
  by (induction "is" arbitrary: xs) auto

lemma fold_update_nth:
  assumes "j < length xs" and "inj_on f (set is)" and "\<And>i. i \<in> set is \<Longrightarrow> f i < length xs"
  shows "fold (\<lambda>i xs. xs[f i := g i]) is xs ! j =
    (if \<exists>i \<in> set is. f i = j then g (THE i. i \<in> set is \<and> f i = j) else xs ! j)"
  using assms
proof (induction "is" rule: rev_induct)
  case (snoc k ks)
  let ?ys = "fold (\<lambda>i xs. xs[f i := g i]) ks xs"
  have len: "length ?ys = length xs" by (rule length_fold_update)
  have inj: "inj_on f (insert k (set ks))" using snoc.prems(2) by simp
  show ?case
  proof (cases "f k = j")
    case True
    have "(THE i. i \<in> set (ks @ [k]) \<and> f i = j) = k"
      using inj True unfolding inj_on_def by (intro the_equality) auto
    with True show ?thesis using snoc.prems len by auto
  next
    case False
    have "(THE i. i \<in> set (ks @ [k]) \<and> f i = j) = (THE i. i \<in> set ks \<and> f i = j)"
      using False by (intro arg_cong [of _ _ The]) (auto simp: fun_eq_iff)
    moreover have "?ys ! j = (if \<exists>i \<in> set ks. f i = j then g (THE i. i \<in> set ks \<and> f i = j) else xs ! j)"
      using snoc inj by (intro snoc.IH) (auto simp: inj_on_def)
    ultimately show ?thesis using False by auto
  qed
qed simp

lemma reverse_loop:
  "fold (\<lambda>i buf. buf[length xs - 1 - i := xs ! i]) [0..<length xs] (replicate (length xs) z) = rev xs"
proof (rule nth_equalityI)
  let ?f = "\<lambda>i. length xs - 1 - i"
  show "length (fold (\<lambda>i buf. buf[?f i := xs ! i]) [0..<length xs] (replicate (length xs) z)) = length (rev xs)"
    by (simp add: length_fold_update)
  fix j assume "j < length (fold (\<lambda>i buf. buf[?f i := xs ! i]) [0..<length xs] (replicate (length xs) z))"
  then have j: "j < length xs" by (simp add: length_fold_update)
  have inj: "inj_on ?f (set [0..<length xs])" by (auto simp: inj_on_def)
  have "(THE i. i \<in> set [0..<length xs] \<and> ?f i = j) = length xs - 1 - j"
    using j by (intro the_equality) auto
  moreover have "\<exists>i \<in> set [0..<length xs]. ?f i = j"
    using j by (intro bexI [of _ "length xs - 1 - j"]) auto
  moreover have bound: "?f i < length (replicate (length xs) z)" if "i \<in> set [0..<length xs]" for i
    using that by auto
  have "fold (\<lambda>i buf. buf[?f i := xs ! i]) [0..<length xs] (replicate (length xs) z) ! j =
      (if \<exists>i \<in> set [0..<length xs]. ?f i = j then xs ! (THE i. i \<in> set [0..<length xs] \<and> ?f i = j)
       else replicate (length xs) z ! j)"
    using j inj bound by (intro fold_update_nth) simp_all
  ultimately show "fold (\<lambda>i buf. buf[?f i := xs ! i]) [0..<length xs] (replicate (length xs) z) ! j = rev xs ! j"
    using j by (simp add: rev_nth)
qed

lemma littleEndianScalar_leVal: "littleEndianScalar bs = leVal bs"
  using reverse_loop [of bs 0] SetBytes_rev [of bs] by (simp add: littleEndianScalar_def Let_def)

text \<open>The digits of a number in base 256, least significant first.\<close>

definition le_digit :: "nat \<Rightarrow> nat \<Rightarrow> byte" where
  "le_digit n i = word_of_nat (n div 256 ^ i mod 256)"

lemma BytesBE_digits:
  "i < length (BytesBE n) \<Longrightarrow> BytesBE n ! (length (BytesBE n) - 1 - i) = le_digit n i"
proof (induction n arbitrary: i rule: BytesBE.induct)
  case (1 n)
  show ?case
  proof (cases "n = 0")
    case True
    with "1.prems" show ?thesis by (simp add: BytesBE.simps)
  next
    case False
    then have eq: "BytesBE n = BytesBE (n div 256) @ [word_of_nat (n mod 256)]"
      by (simp add: BytesBE.simps [of n])
    show ?thesis
    proof (cases i)
      case 0
      with eq show ?thesis by (simp add: le_digit_def)
    next
      case (Suc j)
      with "1.prems" eq have j: "j < length (BytesBE (n div 256))" by simp
      with "1.IH" [OF False j] show ?thesis
        by (simp add: eq nth_append Suc le_digit_def div_mult2_eq)
    qed
  qed
qed

lemma BytesBE_beyond: "length (BytesBE n) \<le> i \<Longrightarrow> n div 256 ^ i = 0"
proof (induction n arbitrary: i rule: BytesBE.induct)
  case (1 n)
  show ?case
  proof (cases "n = 0")
    case False
    with "1.prems" obtain j where "i = Suc j" "length (BytesBE (n div 256)) \<le> j"
      by (cases i) (simp_all add: BytesBE.simps [of n])
    with "1.IH" [OF False] show ?thesis by (simp add: div_mult2_eq)
  qed simp
qed

lemma scalarLittleEndian_digits: "scalarLittleEndian v = map (le_digit (nat \<bar>v\<bar>)) [0..<32]"
proof (rule nth_equalityI)
  let ?n = "nat \<bar>v\<bar>" and ?be = "BytesBE (nat \<bar>v\<bar>)"
  let ?m = "min (length ?be) 32"
  show "length (scalarLittleEndian v) = length (map (le_digit ?n) [0..<32])"
    by (simp add: scalarLittleEndian_def Let_def length_fold_update [of "\<lambda>i. i"])
  fix j assume "j < length (scalarLittleEndian v)"
  then have j: "j < 32"
    by (simp add: scalarLittleEndian_def Let_def length_fold_update [of "\<lambda>i. i"])
  have "scalarLittleEndian v ! j =
      (if \<exists>i \<in> set [0..<?m]. i = j
       then ?be ! (length ?be - 1 - (THE i. i \<in> set [0..<?m] \<and> i = j)) else replicate 32 0 ! j)"
    unfolding scalarLittleEndian_def Let_def using j
    by (intro fold_update_nth [where f = "\<lambda>i. i"]) auto
  also have "\<dots> = le_digit ?n j"
  proof (cases "j < length ?be")
    case True
    then have "(THE i. i \<in> set [0..<?m] \<and> i = j) = j" using j by (intro the_equality) auto
    moreover have "\<exists>i \<in> set [0..<?m]. i = j" using True j by simp
    ultimately show ?thesis using BytesBE_digits [OF True] by simp
  next
    case False
    then have "le_digit ?n j = 0" using BytesBE_beyond [of ?n j] by (simp add: le_digit_def)
    moreover have "\<not> (\<exists>i \<in> set [0..<?m]. i = j)" using False by simp
    ultimately show ?thesis using j by (simp only: if_False nth_replicate)
  qed
  finally show "scalarLittleEndian v ! j = map (le_digit ?n) [0..<32] ! j" using j by simp
qed

lemma length_scalarLittleEndian [simp]: "length (scalarLittleEndian v) = 32"
  by (simp add: scalarLittleEndian_digits)

lemma uint_byte_of_nat: "m < 256 \<Longrightarrow> uint (word_of_nat m :: byte) = int m"
  by (simp add: unsigned_of_nat take_bit_nat_eq_self)

lemma leVal_digits: "leVal (map (le_digit n) [0..<k]) = int (n mod 256 ^ k)"
proof (induction k)
  case (Suc k)
  have digit: "uint (le_digit n k) = int (n div 256 ^ k mod 256)"
    unfolding le_digit_def by (rule uint_byte_of_nat) simp
  have "leVal (map (le_digit n) [0..<Suc k]) = int (n mod 256 ^ k) + 256 ^ k * uint (le_digit n k)"
    using Suc by (simp add: leVal_append)
  also have "\<dots> = int (256 ^ k * (n div 256 ^ k mod 256) + n mod 256 ^ k)"
    unfolding digit by (simp only: of_nat_add of_nat_mult of_nat_power of_nat_numeral add.commute)
  also have "256 ^ k * (n div 256 ^ k mod 256) + n mod 256 ^ k = n mod (256 ^ k * 256)"
    by (rule mod_mult2_eq [symmetric])
  also have "256 ^ k * 256 = (256 :: nat) ^ Suc k" by (simp only: power_Suc mult.commute)
  finally show ?case .
qed simp

lemma littleEndian_roundtrip:
  "0 \<le> v \<Longrightarrow> littleEndianScalar (scalarLittleEndian v) = v mod 2 ^ 256"
proof -
  assume v: "0 \<le> v"
  have "littleEndianScalar (scalarLittleEndian v) = int (nat \<bar>v\<bar> mod 256 ^ 32)"
    unfolding littleEndianScalar_leVal scalarLittleEndian_digits by (rule leVal_digits)
  also have "\<dots> = int (nat \<bar>v\<bar>) mod int (256 ^ 32)" by (rule zmod_int)
  also have "int (256 ^ 32) = 2 ^ 256" by simp
  also have "int (nat \<bar>v\<bar>) = v" using v by simp
  finally show ?thesis .
qed

definition readScalar32 :: "byte list \<Rightarrow> int option" where
  "readScalar32 bs = (if length bs = 32 then Some (littleEndianScalar bs) else None)"

interpretation scalar: codec scalarLittleEndian readScalar32 "\<lambda>v. 0 \<le> v \<and> v < 2 ^ 256"
  by unfold_locales (simp add: readScalar32_def littleEndian_roundtrip)

interpretation hex_scalar:
  codec_chain scalarLittleEndian readScalar32 "\<lambda>v. 0 \<le> v \<and> v < 2 ^ 256" hexEncode hexDecode "\<lambda>_. True"
  by unfold_locales simp

end
