(* ===== verification/Sha2.thy ===== *)
theory Sha2
  imports Go_Bytes
begin

unbundle bit_operations_syntax

text \<open>
  \<open>crypto/sha256.Sum256\<close> and \<open>crypto/sha512.Sum512\<close> of Go's standard library, as FIPS 180-4
  defines them, over machine words. \<open>key_store.go\<close> derives every client key and user hash
  with them. The interface \<open>digest\<close> is what the callers rely on: the output length.
\<close>

section \<open>Message blocks\<close>

definition beBytes :: "nat \<Rightarrow> nat \<Rightarrow> byte list" where
  "beBytes k n = rev (map (le_digit n) [0..<k])"

lemma length_beBytes [simp]: "length (beBytes k n) = k"
  by (simp add: beBytes_def)

definition beWord :: "byte list \<Rightarrow> 'a::len word" where
  "beWord bs = foldl (\<lambda>w b. push_bit 8 w OR ucast b) 0 bs"

function chunks :: "nat \<Rightarrow> 'a list \<Rightarrow> 'a list list" where
  "chunks n xs = (if n = 0 \<or> xs = [] then [] else take n xs # chunks n (drop n xs))"
  by pat_completeness auto
termination
  by (relation "measure (\<lambda>(n, xs). length xs)") auto

declare chunks.simps [simp del]

text \<open>Padding: a one bit, zeros, the length in bits, up to a whole number of blocks.\<close>

definition sha_pad :: "nat \<Rightarrow> nat \<Rightarrow> byte list \<Rightarrow> byte list" where
  "sha_pad blk lenlen m =
     m @ [0x80] @ replicate (nat ((int blk - 1 - int lenlen - int (length m)) mod int blk)) 0
       @ beBytes lenlen (8 * length m)"

lemma sha_pad_blocks:
  assumes "0 < blk"
  shows "blk dvd length (sha_pad blk lenlen m)"
proof -
  let ?a = "1 + int lenlen + int (length m)"
  have "int (length (sha_pad blk lenlen m)) = ?a + (int blk - ?a) mod int blk"
    using assms by (simp add: sha_pad_def algebra_simps)
  then have "int (length (sha_pad blk lenlen m)) mod int blk = (?a + (int blk - ?a)) mod int blk"
    by (simp only: mod_add_right_eq)
  also have "\<dots> = 0" by simp
  finally have "int (length (sha_pad blk lenlen m)) mod int blk = 0" .
  then show ?thesis by (metis of_nat_mod of_nat_eq_0_iff mod_eq_0_iff_dvd)
qed

section \<open>Rounds\<close>

definition Ch :: "'a::len word \<Rightarrow> 'a word \<Rightarrow> 'a word \<Rightarrow> 'a word" where
  "Ch x y z = (x AND y) XOR (NOT x AND z)"

definition Maj :: "'a::len word \<Rightarrow> 'a word \<Rightarrow> 'a word \<Rightarrow> 'a word" where
  "Maj x y z = (x AND y) XOR (x AND z) XOR (y AND z)"

type_synonym 'a hash_state = "'a \<times> 'a \<times> 'a \<times> 'a \<times> 'a \<times> 'a \<times> 'a \<times> 'a"

fun sha_round ::
  "('a::len word \<Rightarrow> 'a word) \<Rightarrow> ('a word \<Rightarrow> 'a word) \<Rightarrow> 'a word \<times> 'a word \<Rightarrow> 'a word hash_state \<Rightarrow> 'a word hash_state"
where
  "sha_round S0 S1 (k, w) (a, b, c, d, e, f, g, h) =
     (let T1 = h + S1 e + Ch e f g + k + w;
          T2 = S0 a + Maj a b c
      in (T1 + T2, a, b, c, d + T1, e, f, g))"

fun add_state :: "'a::len word hash_state \<Rightarrow> 'a word hash_state \<Rightarrow> 'a word hash_state" where
  "add_state (a, b, c, d, e, f, g, h) (a', b', c', d', e', f', g', h') =
     (a + a', b + b', c + c', d + d', e + e', f + f', g + g', h + h')"

text \<open>The message schedule, newest word first.\<close>

fun extend :: "('a::len word \<Rightarrow> 'a word) \<Rightarrow> ('a word \<Rightarrow> 'a word) \<Rightarrow> nat \<Rightarrow> 'a word list \<Rightarrow> 'a word list" where
  "extend s0 s1 0 ws = ws"
| "extend s0 s1 (Suc n) ws =
     extend s0 s1 n ((s1 (ws ! 1) + ws ! 6 + s0 (ws ! 14) + ws ! 15) # ws)"

fun state_bytes :: "nat \<Rightarrow> 'a::len word hash_state \<Rightarrow> byte list" where
  "state_bytes n (a, b, c, d, e, f, g, h) =
     concat (map (\<lambda>w. beBytes n (unat w)) [a, b, c, d, e, f, g, h])"

lemma length_state_bytes [simp]: "length (state_bytes n s) = 8 * n"
  by (cases "(n, s)" rule: state_bytes.cases) simp

section \<open>SHA-256\<close>

definition K256 :: "32 word list" where
  "K256 =
    [1116352408, 1899447441, 3049323471, 3921009573, 961987163, 1508970993,
     2453635748, 2870763221, 3624381080, 310598401, 607225278, 1426881987,
     1925078388, 2162078206, 2614888103, 3248222580, 3835390401, 4022224774,
     264347078, 604807628, 770255983, 1249150122, 1555081692, 1996064986,
     2554220882, 2821834349, 2952996808, 3210313671, 3336571891, 3584528711,
     113926993, 338241895, 666307205, 773529912, 1294757372, 1396182291,
     1695183700, 1986661051, 2177026350, 2456956037, 2730485921, 2820302411,
     3259730800, 3345764771, 3516065817, 3600352804, 4094571909, 275423344,
     430227734, 506948616, 659060556, 883997877, 958139571, 1322822218,
     1537002063, 1747873779, 1955562222, 2024104815, 2227730452, 2361852424,
     2428436474, 2756734187, 3204031479, 3329325298]"

definition H256 :: "32 word hash_state" where
  "H256 =
    (1779033703, 3144134277, 1013904242, 2773480762,
     1359893119, 2600822924, 528734635, 1541459225)"

definition block256 :: "byte list \<Rightarrow> 32 word hash_state \<Rightarrow> 32 word hash_state" where
  "block256 blk st =
     (let S0 = (\<lambda>x. word_rotr 2 x XOR word_rotr 13 x XOR word_rotr 22 x);
          S1 = (\<lambda>x. word_rotr 6 x XOR word_rotr 11 x XOR word_rotr 25 x);
          s0 = (\<lambda>x. word_rotr 7 x XOR word_rotr 18 x XOR drop_bit 3 x);
          s1 = (\<lambda>x. word_rotr 17 x XOR word_rotr 19 x XOR drop_bit 10 x);
          ws = rev (extend s0 s1 48 (rev (map beWord (chunks 4 blk))))
      in add_state st (fold (sha_round S0 S1) (zip K256 ws) st))"

definition Sum256 :: "byte list \<Rightarrow> byte list" where
  "Sum256 m = state_bytes 4 (fold block256 (chunks 64 (sha_pad 64 8 m)) H256)"

section \<open>SHA-512\<close>

definition K512 :: "64 word list" where
  "K512 =
    [4794697086780616226, 8158064640168781261, 13096744586834688815, 16840607885511220156,
     4131703408338449720, 6480981068601479193, 10538285296894168987, 12329834152419229976,
     15566598209576043074, 1334009975649890238, 2608012711638119052, 6128411473006802146,
     8268148722764581231, 9286055187155687089, 11230858885718282805, 13951009754708518548,
     16472876342353939154, 17275323862435702243, 1135362057144423861, 2597628984639134821,
     3308224258029322869, 5365058923640841347, 6679025012923562964, 8573033837759648693,
     10970295158949994411, 12119686244451234320, 12683024718118986047, 13788192230050041572,
     14330467153632333762, 15395433587784984357, 489312712824947311, 1452737877330783856,
     2861767655752347644, 3322285676063803686, 5560940570517711597, 5996557281743188959,
     7280758554555802590, 8532644243296465576, 9350256976987008742, 10552545826968843579,
     11727347734174303076, 12113106623233404929, 14000437183269869457, 14369950271660146224,
     15101387698204529176, 15463397548674623760, 17586052441742319658, 1182934255886127544,
     1847814050463011016, 2177327727835720531, 2830643537854262169, 3796741975233480872,
     4115178125766777443, 5681478168544905931, 6601373596472566643, 7507060721942968483,
     8399075790359081724, 8693463985226723168, 9568029438360202098, 10144078919501101548,
     10430055236837252648, 11840083180663258601, 13761210420658862357, 14299343276471374635,
     14566680578165727644, 15097957966210449927, 16922976911328602910, 17689382322260857208,
     500013540394364858, 748580250866718886, 1242879168328830382, 1977374033974150939,
     2944078676154940804, 3659926193048069267, 4368137639120453308, 4836135668995329356,
     5532061633213252278, 6448918945643986474, 6902733635092675308, 7801388544844847127]"

definition H512 :: "64 word hash_state" where
  "H512 =
    (7640891576956012808, 13503953896175478587, 4354685564936845355, 11912009170470909681,
     5840696475078001361, 11170449401992604703, 2270897969802886507, 6620516959819538809)"

definition block512 :: "byte list \<Rightarrow> 64 word hash_state \<Rightarrow> 64 word hash_state" where
  "block512 blk st =
     (let S0 = (\<lambda>x. word_rotr 28 x XOR word_rotr 34 x XOR word_rotr 39 x);
          S1 = (\<lambda>x. word_rotr 14 x XOR word_rotr 18 x XOR word_rotr 41 x);
          s0 = (\<lambda>x. word_rotr 1 x XOR word_rotr 8 x XOR drop_bit 7 x);
          s1 = (\<lambda>x. word_rotr 19 x XOR word_rotr 61 x XOR drop_bit 6 x);
          ws = rev (extend s0 s1 64 (rev (map beWord (chunks 8 blk))))
      in add_state st (fold (sha_round S0 S1) (zip K512 ws) st))"

definition Sum512 :: "byte list \<Rightarrow> byte list" where
  "Sum512 m = state_bytes 8 (fold block512 (chunks 128 (sha_pad 128 16 m)) H512)"

section \<open>What the callers rely on\<close>

locale digest =
  fixes H :: "byte list \<Rightarrow> byte list"
    and size :: nat
  assumes digest_size: "length (H m) = size"
begin

lemma hex_digest_size: "length (hexEncode (H m)) = 2 * size"
  by (simp add: digest_size)

lemma hex_prefix_size: "k \<le> size \<Longrightarrow> length (hexEncode (take k (H m))) = 2 * k"
  by (simp add: digest_size)

lemma hex_digest_nonempty: "0 < size \<Longrightarrow> hexEncode (H m) \<noteq> []"
  using hex_digest_size [of m] by fastforce

lemma hex_prefix_eq_iff: "hexEncode (take k (H m)) = hexEncode (take k (H m')) \<longleftrightarrow> take k (H m) = take k (H m')"
  by (rule hex.enc_eq_iff) simp_all

end

interpretation sha256: digest Sum256 32
  by unfold_locales (simp add: Sum256_def)

interpretation sha512: digest Sum512 64
  by unfold_locales (simp add: Sum512_def)

end
