(* ===== verification/Conf.thy ===== *)
theory Conf
  imports Go_Strings
begin

text \<open>
  The configuration of \<open>internal/conf/conf.go\<close>: its structs as records, the defaults of
  \<open>New\<close> and \<open>normalize\<close>, \<open>EngineName\<close> and \<open>LoadFromPath\<close>. The YAML reader is viper, code
  outside the repository: opening, reading and unmarshalling the file are arguments of
  \<open>LoadFromPath\<close>.
\<close>

definition DefaultNodeRetryCount :: int where
  "DefaultNodeRetryCount = 1"

definition DefaultNodeTimeout :: int where
  "DefaultNodeTimeout = 15"

definition EngineEmbedded :: string where
  "EngineEmbedded = ''embedded''"

definition EngineExternal :: string where
  "EngineExternal = ''external''"

definition DefaultClientKeySource :: string where
  "DefaultClientKeySource = ''deterministic_split''"

record LogConfig =
  lc_Level :: string
  lc_Output :: string

record NodeConfig =
  nc_APIHost :: string
  nc_NodeID :: int
  nc_Key :: string
  nc_Timeout :: int
  nc_RetryCount :: "int option"

record RuntimeConfig =
  rc_Engine :: string
  rc_WorkingDir :: string
  rc_SudokuPath :: string
  rc_FallbackAddress :: string
  rc_ClientKeySource :: string
  rc_ClientKeySeed :: string
  rc_ClientKeyFile :: string
  rc_MaxClientKeyFileUsers :: int

record Conf =
  cf_LogConfig :: LogConfig
  cf_RuntimeConfig :: RuntimeConfig
  cf_NodeConfigs :: "NodeConfig list"

definition newConf :: Conf where
  "newConf = \<lparr>cf_LogConfig = \<lparr>lc_Level = ''info'', lc_Output = ''''\<rparr>,
     cf_RuntimeConfig = \<lparr>rc_Engine = EngineEmbedded, rc_WorkingDir = ''/var/lib/v2sudoku'',
       rc_SudokuPath = ''/opt/v2sudoku/sudoku'', rc_FallbackAddress = ''127.0.0.1:80'',
       rc_ClientKeySource = DefaultClientKeySource, rc_ClientKeySeed = '''',
       rc_ClientKeyFile = ''/var/lib/v2sudoku/client-keys.json'', rc_MaxClientKeyFileUsers = 10000\<rparr>,
     cf_NodeConfigs = []\<rparr>"

definition EngineName :: "RuntimeConfig \<Rightarrow> string" where
  "EngineName c =
     (let engine = TrimSpace (ToLower (rc_Engine c))
      in if engine = '''' then EngineEmbedded else engine)"

definition or_default :: "string \<Rightarrow> string \<Rightarrow> string" where
  "or_default v d = (if v = '''' then d else v)"

text \<open>Each \<open>if\<close> of the source reads and writes a field of its own.\<close>

definition normalize :: "RuntimeConfig \<Rightarrow> RuntimeConfig" where
  "normalize c = c\<lparr>
     rc_Engine := or_default (rc_Engine c) EngineEmbedded,
     rc_WorkingDir := or_default (rc_WorkingDir c) ''/var/lib/v2sudoku'',
     rc_SudokuPath := or_default (rc_SudokuPath c) ''/opt/v2sudoku/sudoku'',
     rc_FallbackAddress := or_default (rc_FallbackAddress c) ''127.0.0.1:80'',
     rc_ClientKeySource := or_default (rc_ClientKeySource c) DefaultClientKeySource,
     rc_ClientKeyFile := or_default (rc_ClientKeyFile c) ''/var/lib/v2sudoku/client-keys.json'',
     rc_MaxClientKeyFileUsers :=
       (if rc_MaxClientKeyFileUsers c \<le> 0 then 10000 else rc_MaxClientKeyFileUsers c)\<rparr>"

lemma or_default_nonempty: "d \<noteq> '''' \<Longrightarrow> or_default v d \<noteq> ''''"
  by (simp add: or_default_def)

lemma or_default_id [simp]: "v \<noteq> '''' \<Longrightarrow> or_default v d = v"
  by (simp add: or_default_def)

datatype conf_error = OpenConfigError | ReadConfigError | UnmarshalConfigError

definition default_retry :: "NodeConfig \<Rightarrow> NodeConfig" where
  "default_retry n =
     (case nc_RetryCount n of None \<Rightarrow> n\<lparr>nc_RetryCount := Some DefaultNodeRetryCount\<rparr> | Some _ \<Rightarrow> n)"

definition LoadFromPath ::
  "(string \<Rightarrow> bool) \<Rightarrow> (string \<Rightarrow> 'v option) \<Rightarrow> ('v \<Rightarrow> Conf \<Rightarrow> Conf option) \<Rightarrow> Conf \<Rightarrow> string \<Rightarrow> conf_error + Conf"
where
  "LoadFromPath canOpen readInConfig unmarshal c filePath =
     (if \<not> canOpen filePath then Inl OpenConfigError
      else case readInConfig filePath of
        None \<Rightarrow> Inl ReadConfigError
      | Some v \<Rightarrow>
          (case unmarshal v c of
             None \<Rightarrow> Inl UnmarshalConfigError
           | Some c' \<Rightarrow>
               Inr (c'\<lparr>cf_NodeConfigs := map default_retry (cf_NodeConfigs c'),
                       cf_RuntimeConfig := normalize (cf_RuntimeConfig c')\<rparr>)))"

section \<open>Complete configurations\<close>

definition complete_runtime :: "RuntimeConfig \<Rightarrow> bool" where
  "complete_runtime c \<longleftrightarrow>
     rc_Engine c \<noteq> '''' \<and> rc_WorkingDir c \<noteq> '''' \<and> rc_SudokuPath c \<noteq> '''' \<and>
     rc_FallbackAddress c \<noteq> '''' \<and> rc_ClientKeySource c \<noteq> '''' \<and> rc_ClientKeyFile c \<noteq> '''' \<and>
     0 < rc_MaxClientKeyFileUsers c"

lemmas conf_names = EngineEmbedded_def EngineExternal_def DefaultClientKeySource_def

lemma complete_normalize [simp]: "complete_runtime (normalize c)"
  by (simp add: complete_runtime_def normalize_def or_default_nonempty conf_names)

lemma normalize_complete: "complete_runtime c \<Longrightarrow> normalize c = c"
  by (simp add: complete_runtime_def normalize_def)

lemma complete_newConf: "complete_runtime (cf_RuntimeConfig newConf)"
  by (simp add: complete_runtime_def newConf_def conf_names)

lemma normalize_source:
  "rc_ClientKeySource (normalize c) = or_default (rc_ClientKeySource c) DefaultClientKeySource"
  by (simp add: normalize_def)

lemma LoadFromPath_InrD:
  assumes "LoadFromPath canOpen rd um c p = Inr c'"
  obtains v c0 where "canOpen p" "rd p = Some v" "um v c = Some c0"
    "cf_RuntimeConfig c' = normalize (cf_RuntimeConfig c0)"
    "cf_NodeConfigs c' = map default_retry (cf_NodeConfigs c0)"
    "cf_LogConfig c' = cf_LogConfig c0"
  using assms by (auto simp: LoadFromPath_def split: if_splits option.splits)

text \<open>
  A configuration that loads is complete: every runtime field has a usable value, the
  default where the file leaves it empty, every node has a retry count, and normalising
  again changes nothing.
\<close>

theorem LoadFromPath_complete:
  assumes "LoadFromPath canOpen rd um c p = Inr c'"
  shows "complete_runtime (cf_RuntimeConfig c') \<and>
    normalize (cf_RuntimeConfig c') = cf_RuntimeConfig c' \<and>
    list_all (\<lambda>n. nc_RetryCount n \<noteq> None) (cf_NodeConfigs c')"
proof -
  obtain c0 :: Conf where "cf_RuntimeConfig c' = normalize (cf_RuntimeConfig c0)"
    and "cf_NodeConfigs c' = map default_retry (cf_NodeConfigs c0)"
    using assms by (elim LoadFromPath_InrD) blast
  then show ?thesis
    by (auto simp: normalize_complete list_all_iff default_retry_def split: option.splits)
qed

text \<open>
  The configuration of the repository's own test: engine and one node, nothing else.
\<close>

definition test_conf :: Conf where
  "test_conf = newConf\<lparr>cf_RuntimeConfig := (cf_RuntimeConfig newConf)\<lparr>rc_ClientKeySource := ''''\<rparr>,
     cf_NodeConfigs := [\<lparr>nc_APIHost = ''https://panel.example.com'', nc_NodeID = 6, nc_Key = ''token'',
       nc_Timeout = 0, nc_RetryCount = None\<rparr>]\<rparr>"

theorem LoadFromPath_complete_witness:
  "\<exists>c'. LoadFromPath (\<lambda>_. True) (\<lambda>_. Some ()) (\<lambda>_ _. Some test_conf) newConf ''config.yml'' = Inr c' \<and>
     rc_ClientKeySource (cf_RuntimeConfig c') = DefaultClientKeySource \<and>
     complete_runtime (cf_RuntimeConfig c') \<and> map nc_RetryCount (cf_NodeConfigs c') = [Some 1]"
proof -
  obtain c' where c': "LoadFromPath (\<lambda>_. True) (\<lambda>_. Some ()) (\<lambda>_ _. Some test_conf) newConf ''config.yml'' = Inr c'"
    by (simp add: LoadFromPath_def)
  have "complete_runtime (cf_RuntimeConfig c')" using LoadFromPath_complete [OF c'] by blast
  with c' show ?thesis
    by (auto simp: LoadFromPath_def test_conf_def newConf_def default_retry_def normalize_source
        or_default_def DefaultNodeRetryCount_def)
qed

text \<open>The engine is always named: a blank one, in any spelling of blank, is the embedded one.\<close>

lemma EngineName_total: "EngineName c \<noteq> '''' \<and> trimmed (EngineName c)"
proof -
  have "trimmed EngineEmbedded"
    by (rule trimmed_plain) (simp add: EngineEmbedded_def plain_char_def)
  then show ?thesis by (auto simp: EngineName_def Let_def EngineEmbedded_def)
qed

end
