(* ===== verification/Panel_Types.thy ===== *)
theory Panel_Types
  imports Go_Strings
begin

text \<open>
  The data of \<open>internal/panel/client.go\<close>: node, settings and user structs, the field
  resolution of \<open>SudokuSettings.UnmarshalJSON\<close> (every setting under several spellings), the
  \<open>NodeInfo.Normalize\<close> checks and the interval conversion.

  \<open>encoding/json\<close> itself (bytes to \<open>rawSettings\<close>) is not modelled: a \<open>rawSettings\<close> value is what
  it leaves, absent members being zero values.
\<close>

named_theorems settings_simps \<open>field resolution of the settings\<close>

section \<open>Dynamic values\<close>

text \<open>
  A Go \<open>any\<close> as the JSON and msgpack decoders produce it. A finite \<open>float64\<close> is its mantissa
  and binary exponent.
\<close>

datatype float64 = Flt int int

datatype any = ANil | ABool bool | AInt int | AFloat float64 | AStr string
  | AStrs "string list" | AList "any list" | AMap "(string \<times> any) list"

fun trunc_float :: "float64 \<Rightarrow> int" where
  "trunc_float (Flt m e) =
     (if 0 \<le> e then m * 2 ^ nat e else sgn m * (\<bar>m\<bar> div 2 ^ nat (- e)))"

text \<open>
  \<open>int64(f)\<close> truncates towards zero; outside the range the value depends on the machine
  (\<open>fconv\<close>).
\<close>

definition float_to_int64 :: "(float64 \<Rightarrow> int64) \<Rightarrow> float64 \<Rightarrow> int64" where
  "float_to_int64 fconv f = (if in64 (trunc_float f) then trunc_float f else wrap64 (fconv f))"

definition Second :: int64 where
  "Second = 1000000000"

definition Minute :: int64 where
  "Minute = 60 * Second"

definition seconds :: "int64 \<Rightarrow> int64" where
  "seconds v = wrap64 (v * Second)"

fun intervalToDuration :: "(float64 \<Rightarrow> int64) \<Rightarrow> any \<Rightarrow> int64" where
  "intervalToDuration fconv ANil = 0"
| "intervalToDuration fconv (AInt v) = seconds v"
| "intervalToDuration fconv (AFloat v) = seconds (float_to_int64 fconv v)"
| "intervalToDuration fconv (AStr v) = seconds (Atoi v)"
| "intervalToDuration fconv _ = 0"

text \<open>\<open>fmt.Sprint\<close> of a decoded value; the rendering of a float is an argument.\<close>

fun joinSpace :: "string list \<Rightarrow> string" where
  "joinSpace [] = ''''"
| "joinSpace [s] = s"
| "joinSpace (s # ss) = s @ '' '' @ joinSpace ss"

fun Sprint :: "(float64 \<Rightarrow> string) \<Rightarrow> any \<Rightarrow> string" where
  "Sprint ff ANil = ''<nil>''"
| "Sprint ff (ABool b) = (if b then ''true'' else ''false'')"
| "Sprint ff (AInt i) = Itoa i"
| "Sprint ff (AFloat f) = ff f"
| "Sprint ff (AStr s) = s"
| "Sprint ff (AStrs ss) = ''['' @ joinSpace ss @ '']''"
| "Sprint ff (AList vs) = ''['' @ joinSpace (map (Sprint ff) vs) @ '']''"
| "Sprint ff (AMap kvs) =
     ''map['' @ joinSpace (map (\<lambda>(k, v). k @ '':'' @ v)
        (sort_key fst (map (\<lambda>(k, v). (k, Sprint ff v)) kvs))) @ '']''"

section \<open>toStringSlice\<close>

definition is_list_sep :: "char \<Rightarrow> bool" where
  "is_list_sep r \<longleftrightarrow> r \<in> {CHR '','', CHR 0x0A, CHR 0x0D, CHR 0x09, CHR '' ''}"

definition keep_nonempty :: "string list \<Rightarrow> string list" where
  "keep_nonempty items = filter (\<lambda>t. t \<noteq> '''') (map TrimSpace items)"

text \<open>\<open>None\<close> is Go's nil slice.\<close>

fun toStringSlice :: "(float64 \<Rightarrow> string) \<Rightarrow> any \<Rightarrow> string list option" where
  "toStringSlice ff (AStrs v) = Some (keep_nonempty v)"
| "toStringSlice ff (AList v) = Some (keep_nonempty (map (Sprint ff) v))"
| "toStringSlice ff (AStr v) = Some (keep_nonempty (FieldsFunc is_list_sep [] v))"
| "toStringSlice ff _ = None"

fun firstNonEmptyStringSlice :: "(float64 \<Rightarrow> string) \<Rightarrow> any list \<Rightarrow> string list option" where
  "firstNonEmptyStringSlice ff [] = None"
| "firstNonEmptyStringSlice ff (v # vs) =
     (case toStringSlice ff v of
        Some out \<Rightarrow> if out \<noteq> [] then Some out else firstNonEmptyStringSlice ff vs
      | None \<Rightarrow> firstNonEmptyStringSlice ff vs)"

definition clean_items :: "string list \<Rightarrow> bool" where
  "clean_items ss \<longleftrightarrow> (\<forall>s \<in> set ss. s \<noteq> '''' \<and> trimmed s)"

lemma clean_keep_nonempty [simp]: "clean_items (keep_nonempty ss)"
  by (auto simp: clean_items_def keep_nonempty_def)

lemma keep_nonempty_clean: "clean_items ss \<Longrightarrow> keep_nonempty ss = ss"
  by (induction ss) (auto simp: clean_items_def keep_nonempty_def)

lemma clean_toStringSlice: "toStringSlice ff v = Some ss \<Longrightarrow> clean_items ss"
  by (cases "(ff, v)" rule: toStringSlice.cases) auto

lemma clean_firstNonEmptyStringSlice:
  "firstNonEmptyStringSlice ff vs = Some ss \<Longrightarrow> ss \<noteq> [] \<and> clean_items ss"
  by (induction vs) (auto split: option.splits if_splits dest: clean_toStringSlice)

section \<open>Settings\<close>

record HTTPMaskSettings =
  hm_Disable :: "bool option"
  hm_Mode :: string
  hm_TLS :: "bool option"
  hm_Host :: string
  hm_MaskHost :: string
  hm_PathRoot :: string
  hm_Multiplex :: string

record SudokuSettings =
  st_MasterPublicKey :: string
  st_MasterPrivateKey :: string
  st_AEAD :: string
  st_AEADMethod :: string
  st_ASCII :: string
  st_TableType :: string
  st_PaddingMin :: int
  st_PaddingMax :: int
  st_EnablePureDownlink :: "bool option"
  st_Multiplex :: string
  st_FallbackAddress :: string
  st_SuspiciousAction :: string
  st_CustomTable :: string
  st_CustomTables :: "string list option"
  st_HTTPMask :: HTTPMaskSettings

record rawHTTPMask =
  rh_Disable :: "bool option"
  rh_Mode :: string
  rh_TLS :: "bool option"
  rh_Host :: string
  rh_MaskHost :: string
  rh_MaskHostK :: string
  rh_PathRoot :: string
  rh_PathRootK :: string
  rh_Multiplex :: string

record rawSettings =
  rs_MasterPublicKey :: string
  rs_MasterPrivateKey :: string
  rs_AEAD :: string
  rs_AEADMethod :: string
  rs_AEADMethodK :: string
  rs_ASCII :: string
  rs_TableType :: string
  rs_TableTypeK :: string
  rs_PaddingMin :: int
  rs_PaddingMinK :: int
  rs_PaddingMax :: int
  rs_PaddingMaxK :: int
  rs_EnablePureDownlink :: "bool option"
  rs_EnablePureDownlinkK :: "bool option"
  rs_Multiplex :: string
  rs_FallbackAddress :: string
  rs_SuspiciousAction :: string
  rs_CustomTable :: string
  rs_CustomTableK :: string
  rs_CustomTables :: any
  rs_CustomTablesK :: any
  rs_HTTPMask :: rawHTTPMask

definition resolveHTTPMask :: "rawHTTPMask \<Rightarrow> HTTPMaskSettings" where
  "resolveHTTPMask r =
     (let maskHost = firstNonEmpty [rh_MaskHost r, rh_MaskHostK r, rh_Host r]
      in \<lparr>hm_Disable = rh_Disable r, hm_Mode = TrimSpace (rh_Mode r), hm_TLS = rh_TLS r,
          hm_Host = maskHost, hm_MaskHost = maskHost,
          hm_PathRoot = firstNonEmpty [rh_PathRoot r, rh_PathRootK r],
          hm_Multiplex = TrimSpace (rh_Multiplex r)\<rparr>)"

text \<open>\<open>SudokuSettings.UnmarshalJSON\<close> after \<open>json.Unmarshal(data, &raw)\<close>.\<close>

definition resolveSettings :: "(float64 \<Rightarrow> string) \<Rightarrow> rawSettings \<Rightarrow> SudokuSettings" where
  "resolveSettings ff raw =
     (let aead = firstNonEmpty [rs_AEADMethod raw, rs_AEADMethodK raw, rs_AEAD raw];
          ascii = firstNonEmpty [rs_TableType raw, rs_TableTypeK raw, rs_ASCII raw]
      in \<lparr>st_MasterPublicKey = TrimSpace (rs_MasterPublicKey raw),
          st_MasterPrivateKey = TrimSpace (rs_MasterPrivateKey raw),
          st_AEAD = aead, st_AEADMethod = aead,
          st_ASCII = ascii, st_TableType = ascii,
          st_PaddingMin = firstNonZero [rs_PaddingMin raw, rs_PaddingMinK raw],
          st_PaddingMax = firstNonZero [rs_PaddingMax raw, rs_PaddingMaxK raw],
          st_EnablePureDownlink =
            or_else (rs_EnablePureDownlink raw) (rs_EnablePureDownlinkK raw),
          st_Multiplex = TrimSpace (rs_Multiplex raw),
          st_FallbackAddress = TrimSpace (rs_FallbackAddress raw),
          st_SuspiciousAction = TrimSpace (rs_SuspiciousAction raw),
          st_CustomTable = firstNonEmpty [rs_CustomTable raw, rs_CustomTableK raw],
          st_CustomTables = firstNonEmptyStringSlice ff [rs_CustomTables raw, rs_CustomTablesK raw],
          st_HTTPMask = resolveHTTPMask (rs_HTTPMask raw)\<rparr>)"

text \<open>
  What \<open>json.Marshal\<close> writes for a \<open>SudokuSettings\<close> (its struct tags are the underscore
  spellings), read back into \<open>rawSettings\<close>: the hyphenated members are absent.
\<close>

definition marshalHTTPMask :: "HTTPMaskSettings \<Rightarrow> rawHTTPMask" where
  "marshalHTTPMask m = \<lparr>rh_Disable = hm_Disable m, rh_Mode = hm_Mode m, rh_TLS = hm_TLS m,
     rh_Host = hm_Host m, rh_MaskHost = hm_MaskHost m, rh_MaskHostK = '''',
     rh_PathRoot = hm_PathRoot m, rh_PathRootK = '''', rh_Multiplex = hm_Multiplex m\<rparr>"

definition marshalSettings :: "SudokuSettings \<Rightarrow> rawSettings" where
  "marshalSettings s = \<lparr>rs_MasterPublicKey = st_MasterPublicKey s,
     rs_MasterPrivateKey = st_MasterPrivateKey s,
     rs_AEAD = st_AEAD s, rs_AEADMethod = st_AEADMethod s, rs_AEADMethodK = '''',
     rs_ASCII = st_ASCII s, rs_TableType = st_TableType s, rs_TableTypeK = '''',
     rs_PaddingMin = st_PaddingMin s, rs_PaddingMinK = 0,
     rs_PaddingMax = st_PaddingMax s, rs_PaddingMaxK = 0,
     rs_EnablePureDownlink = st_EnablePureDownlink s, rs_EnablePureDownlinkK = None,
     rs_Multiplex = st_Multiplex s, rs_FallbackAddress = st_FallbackAddress s,
     rs_SuspiciousAction = st_SuspiciousAction s,
     rs_CustomTable = st_CustomTable s, rs_CustomTableK = '''',
     rs_CustomTables = (case st_CustomTables s of None \<Rightarrow> ANil | Some ss \<Rightarrow> AList (map AStr ss)),
     rs_CustomTablesK = ANil,
     rs_HTTPMask = marshalHTTPMask (st_HTTPMask s)\<rparr>"

definition settled_mask :: "HTTPMaskSettings \<Rightarrow> bool" where
  "settled_mask m \<longleftrightarrow> trimmed (hm_Mode m) \<and> trimmed (hm_MaskHost m) \<and> hm_Host m = hm_MaskHost m \<and>
     trimmed (hm_PathRoot m) \<and> trimmed (hm_Multiplex m)"

definition settled :: "SudokuSettings \<Rightarrow> bool" where
  "settled s \<longleftrightarrow> trimmed (st_MasterPublicKey s) \<and> trimmed (st_MasterPrivateKey s) \<and>
     trimmed (st_AEAD s) \<and> st_AEADMethod s = st_AEAD s \<and>
     trimmed (st_ASCII s) \<and> st_TableType s = st_ASCII s \<and>
     trimmed (st_Multiplex s) \<and> trimmed (st_FallbackAddress s) \<and> trimmed (st_SuspiciousAction s) \<and>
     trimmed (st_CustomTable s) \<and>
     (case st_CustomTables s of None \<Rightarrow> True | Some ss \<Rightarrow> ss \<noteq> [] \<and> clean_items ss) \<and>
     settled_mask (st_HTTPMask s)"

lemma firstNonEmpty_skip [settings_simps]:
  "firstNonEmpty ('''' # vs) = firstNonEmpty vs" "firstNonEmpty (v # '''' # vs) = firstNonEmpty (v # vs)"
  "firstNonEmpty [v] = TrimSpace v" "firstNonEmpty [v, v] = TrimSpace v"
  by (simp_all add: Let_def)

lemma firstNonEmptyStringSlice_skip [settings_simps]:
  "firstNonEmptyStringSlice ff (ANil # vs) = firstNonEmptyStringSlice ff vs"
  "firstNonEmptyStringSlice ff [v, ANil] = firstNonEmptyStringSlice ff [v]"
  by (simp_all split: option.split)

lemma firstNonZero_again [settings_simps]: "firstNonZero [n, 0] = n" "firstNonZero [0, n] = n"
  by simp_all

lemma settled_resolveSettings: "settled (resolveSettings ff raw)"
proof -
  have "case firstNonEmptyStringSlice ff vs of None \<Rightarrow> True | Some ss \<Rightarrow> ss \<noteq> [] \<and> clean_items ss" for vs
    using clean_firstNonEmptyStringSlice [of ff vs] by (auto split: option.splits)
  then show ?thesis
    by (simp add: settled_def settled_mask_def resolveSettings_def resolveHTTPMask_def Let_def
        del: firstNonEmpty.simps firstNonEmptyStringSlice.simps)
qed

lemma resolve_marshal_mask: "settled_mask m \<Longrightarrow> resolveHTTPMask (marshalHTTPMask m) = m"
  by (cases m) (simp add: settled_mask_def resolveHTTPMask_def marshalHTTPMask_def settings_simps Let_def
      del: firstNonEmpty.simps)

lemma resolve_marshal_tables:
  assumes "case ts of None \<Rightarrow> True | Some ss \<Rightarrow> ss \<noteq> [] \<and> clean_items ss"
  shows "firstNonEmptyStringSlice ff [case ts of None \<Rightarrow> ANil | Some ss \<Rightarrow> AList (map AStr ss)] = ts"
  using assms by (cases ts) (simp_all add: comp_def keep_nonempty_clean)

lemma resolve_marshal:
  assumes "settled s"
  shows "resolveSettings ff (marshalSettings s) = s"
proof -
  have mask: "resolveHTTPMask (marshalHTTPMask (st_HTTPMask s)) = st_HTTPMask s"
    using assms by (intro resolve_marshal_mask) (simp add: settled_def)
  have tables: "firstNonEmptyStringSlice ff
      [case st_CustomTables s of None \<Rightarrow> ANil | Some ss \<Rightarrow> AList (map AStr ss)] = st_CustomTables s"
    using assms by (intro resolve_marshal_tables) (simp add: settled_def)
  show ?thesis
    using assms mask tables
    by (intro SudokuSettings.equality)
      (simp_all add: settled_def resolveSettings_def marshalSettings_def Let_def settings_simps
        del: firstNonEmpty.simps firstNonZero.simps firstNonEmptyStringSlice.simps)
qed

text \<open>
  C28. Settings written to the panel cache and read back are the settings the panel sent:
  decoding a node's \<open>encryption_settings\<close>, whatever spellings it uses, yields a value that
  survives being marshalled and decoded again unchanged.
\<close>

theorem settings_cache_roundtrip:
  "resolveSettings ff (marshalSettings (resolveSettings ff raw)) = resolveSettings ff raw"
  by (rule resolve_marshal) (rule settled_resolveSettings)

text \<open>The same settings under the underscore and under the hyphenated (MetaCubeX) spellings.\<close>

definition hyphenated :: "rawSettings \<Rightarrow> rawSettings" where
  "hyphenated r = r\<lparr>
     rs_AEADMethod := '''', rs_AEADMethodK := rs_AEADMethod r,
     rs_TableType := '''', rs_TableTypeK := rs_TableType r,
     rs_PaddingMin := 0, rs_PaddingMinK := rs_PaddingMin r,
     rs_PaddingMax := 0, rs_PaddingMaxK := rs_PaddingMax r,
     rs_EnablePureDownlink := None, rs_EnablePureDownlinkK := rs_EnablePureDownlink r,
     rs_CustomTable := '''', rs_CustomTableK := rs_CustomTable r,
     rs_CustomTables := ANil, rs_CustomTablesK := rs_CustomTables r,
     rs_HTTPMask := (rs_HTTPMask r)\<lparr>
       rh_MaskHost := '''', rh_MaskHostK := rh_MaskHost (rs_HTTPMask r),
       rh_PathRoot := '''', rh_PathRootK := rh_PathRoot (rs_HTTPMask r)\<rparr>\<rparr>"

definition no_hyphens :: "rawSettings \<Rightarrow> bool" where
  "no_hyphens r \<longleftrightarrow> rs_AEADMethodK r = '''' \<and> rs_TableTypeK r = '''' \<and> rs_PaddingMinK r = 0 \<and>
     rs_PaddingMaxK r = 0 \<and> rs_EnablePureDownlinkK r = None \<and> rs_CustomTableK r = '''' \<and>
     rs_CustomTablesK r = ANil \<and> rh_MaskHostK (rs_HTTPMask r) = '''' \<and>
     rh_PathRootK (rs_HTTPMask r) = ''''"

text \<open>
  The hyphenated spellings mean the same as the underscore ones: moving every member of
  a settings object that has both to its hyphenated name changes nothing in what is decoded.
\<close>

theorem hyphenated_same:
  assumes "no_hyphens r"
  shows "resolveSettings ff (hyphenated r) = resolveSettings ff r"
proof -
  have "resolveHTTPMask (rs_HTTPMask (hyphenated r)) = resolveHTTPMask (rs_HTTPMask r)"
    using assms
    by (simp add: no_hyphens_def hyphenated_def resolveHTTPMask_def settings_simps
        del: firstNonEmpty.simps)
  then show ?thesis
    using assms
    by (intro SudokuSettings.equality)
      (simp_all add: resolveSettings_def Let_def hyphenated_def no_hyphens_def settings_simps
        del: firstNonEmpty.simps firstNonZero.simps firstNonEmptyStringSlice.simps)
qed

definition sample_raw :: rawSettings where
  "sample_raw = \<lparr>rs_MasterPublicKey = '''', rs_MasterPrivateKey = ''ab'',
     rs_AEAD = '''', rs_AEADMethod = ''aes-128-gcm'', rs_AEADMethodK = '''',
     rs_ASCII = '''', rs_TableType = ''up_ascii_down_entropy'', rs_TableTypeK = '''',
     rs_PaddingMin = 2, rs_PaddingMinK = 0, rs_PaddingMax = 7, rs_PaddingMaxK = 0,
     rs_EnablePureDownlink = Some False, rs_EnablePureDownlinkK = None,
     rs_Multiplex = '''', rs_FallbackAddress = '''', rs_SuspiciousAction = '''',
     rs_CustomTable = ''xpxvvpvv'', rs_CustomTableK = '''',
     rs_CustomTables = AList [AStr ''xpxvvpvv'', AStr ''vxpvxvvp''], rs_CustomTablesK = ANil,
     rs_HTTPMask = \<lparr>rh_Disable = None, rh_Mode = ''stream'', rh_TLS = Some True, rh_Host = '''',
       rh_MaskHost = ''cdn.example.com'', rh_MaskHostK = '''', rh_PathRoot = ''aabbcc'',
       rh_PathRootK = '''', rh_Multiplex = ''auto''\<rparr>\<rparr>"

theorem hyphenated_same_witness:
  "rs_PaddingMinK (hyphenated sample_raw) = 2 \<and>
   resolveSettings (\<lambda>_. '''') (hyphenated sample_raw) = resolveSettings (\<lambda>_. '''') sample_raw"
  using hyphenated_same [of sample_raw "\<lambda>_. ''''"]
  by (simp add: no_hyphens_def sample_raw_def hyphenated_def)

end
