(* ===== verification/Panel_Node.thy ===== *)
theory Panel_Node
  imports Panel_Types
begin

text \<open>
  The node of \<open>internal/panel/client.go\<close> with its base configuration, \<open>NodeInfo.Normalize\<close>,
  and the user, traffic and online records the panel exchanges.
\<close>

record BaseConfig =
  bc_PushInterval :: any
  bc_PullInterval :: any
  bc_DeviceOnlineMinTraffic :: int
  bc_NodeReportMinTraffic :: int

record NodeInfo =
  ni_Id :: int
  ni_Tag :: string
  ni_Protocol :: string
  ni_Host :: string
  ni_ListenIP :: string
  ni_Port :: any
  ni_ServerPort :: int
  ni_Network :: string
  ni_NetworkSettings :: string
  ni_Encryption :: string
  ni_EncryptionSettings :: SudokuSettings
  ni_BaseConfig :: BaseConfig
  ni_PushInterval :: int64
  ni_PullInterval :: int64

record UserInfo =
  ui_Id :: int
  ui_Uuid :: string
  ui_Email :: string
  ui_SpeedLimit :: int
  ui_DeviceLimit :: int

text \<open>Go's zero \<open>UserInfo\<close>, what a lookup of an absent map key yields.\<close>

definition zeroUser :: UserInfo where
  "zeroUser = \<lparr>ui_Id = 0, ui_Uuid = '''', ui_Email = '''', ui_SpeedLimit = 0, ui_DeviceLimit = 0\<rparr>"

record UserTraffic =
  ut_UID :: int
  ut_Upload :: int64
  ut_Download :: int64
  ut_UUID :: string

record OnlineUser =
  ou_UID :: int
  ou_IP :: string

datatype node_error = UnsupportedProtocol string | ServerPortRequired | MasterKeyRequired

definition nodeTag :: "string \<Rightarrow> int \<Rightarrow> string" where
  "nodeTag apiHost nodeID = ''['' @ apiHost @ '']-sudoku:'' @ Itoa nodeID"

text \<open>
  The interval a node ends up with: the panel's value if it sent one, else the one already
  there, and a minute when that is not positive.
\<close>

definition resolveInterval :: "(float64 \<Rightarrow> int64) \<Rightarrow> any \<Rightarrow> int64 \<Rightarrow> int64" where
  "resolveInterval fconv base cur =
     (let d = (if base \<noteq> ANil then intervalToDuration fconv base else cur)
      in if d \<le> 0 then Minute else d)"

text \<open>
  \<open>Normalize\<close> changes the node in place and may stop half way: the error, if any, and the node
  as it is left.
\<close>

definition Normalize ::
  "(float64 \<Rightarrow> int64) \<Rightarrow> NodeInfo \<Rightarrow> int \<Rightarrow> string \<Rightarrow> node_error option \<times> NodeInfo"
where
  "Normalize fconv cfg nodeID apiHost =
     (if ni_Protocol cfg \<noteq> ''sudoku'' then (Some (UnsupportedProtocol (ni_Protocol cfg)), cfg)
      else
        let cfg1 = cfg\<lparr>ni_Id := nodeID, ni_Tag := nodeTag apiHost nodeID,
              ni_ListenIP := (if ni_ListenIP cfg = '''' then ''0.0.0.0'' else ni_ListenIP cfg)\<rparr>
        in if ni_ServerPort cfg1 \<le> 0 then (Some ServerPortRequired, cfg1)
           else
             let cfg2 = cfg1\<lparr>
                   ni_PushInterval := resolveInterval fconv (bc_PushInterval (ni_BaseConfig cfg1)) (ni_PushInterval cfg1),
                   ni_PullInterval := resolveInterval fconv (bc_PullInterval (ni_BaseConfig cfg1)) (ni_PullInterval cfg1)\<rparr>
             in if st_MasterPublicKey (ni_EncryptionSettings cfg2) = '''' \<and>
                   st_MasterPrivateKey (ni_EncryptionSettings cfg2) = ''''
                then (Some MasterKeyRequired, cfg2)
                else (None, cfg2))"

section \<open>Intervals\<close>

lemma Minute_eq: "Minute = 60000000000"
  by (simp add: Minute_def Second_def)

lemma in64_seconds [simp]: "in64 (seconds v)"
  by (simp add: seconds_def)

lemma in64_zero: "in64 0"
  by (simp add: in64_def)

lemma in64_intervalToDuration [simp]: "in64 (intervalToDuration fconv v)"
  by (cases "(fconv, v)" rule: intervalToDuration.cases) (simp_all add: in64_zero)

lemma resolveInterval_pos [simp]: "0 < resolveInterval fconv base cur"
  by (simp add: resolveInterval_def Let_def Minute_eq)

lemma in64_resolveInterval: "in64 cur \<Longrightarrow> in64 (resolveInterval fconv base cur)"
  by (simp add: resolveInterval_def Let_def Minute_eq in64_def [of 60000000000])

lemma resolveInterval_again [simp]:
  "resolveInterval fconv base (resolveInterval fconv base cur) = resolveInterval fconv base cur"
  by (simp add: resolveInterval_def Let_def Minute_eq)

lemma seconds_exact: "\<bar>v\<bar> \<le> 9223372036 \<Longrightarrow> seconds v = v * 1000000000"
  unfolding seconds_def Second_def by (rule wrap64_id) (simp add: in64_def abs_le_iff)

lemma seconds_le_maxInt: "seconds v = v * 1000000000 \<Longrightarrow> \<bar>v\<bar> \<le> 9223372036"
proof -
  assume "seconds v = v * 1000000000"
  with in64_seconds [of v] have "in64 (v * 1000000000)" by simp
  then show ?thesis by (auto simp: in64_def)
qed

text \<open>The number a panel value stands for, where it stands for one.\<close>

fun interval_seconds :: "(float64 \<Rightarrow> int64) \<Rightarrow> any \<Rightarrow> int64 option" where
  "interval_seconds fconv (AInt v) = Some v"
| "interval_seconds fconv (AFloat f) = Some (float_to_int64 fconv f)"
| "interval_seconds fconv (AStr s) = Some (Atoi s)"
| "interval_seconds fconv _ = None"

text \<open>
  C29. The polling intervals: a panel value of \<open>n\<close> seconds is obeyed exactly when
  \<open>1 \<le> n \<le> 9223372036\<close>; anything that is no number, or a number below 1, means one minute.
  Above that bound the product wraps around: 18446744074 seconds (585 years) polls every
  0.29 seconds.
\<close>

theorem interval_behaviour:
  "(interval_seconds fconv v = Some n \<longrightarrow> 1 \<le> n \<and> n \<le> 9223372036 \<longrightarrow>
      resolveInterval fconv v cur = n * Second) \<and>
   (interval_seconds fconv v = Some n \<longrightarrow> - 9223372036 \<le> n \<and> n < 1 \<longrightarrow>
      resolveInterval fconv v cur = Minute) \<and>
   (interval_seconds fconv v = None \<longrightarrow> v \<noteq> ANil \<longrightarrow> resolveInterval fconv v cur = Minute) \<and>
   resolveInterval fconv (AInt 18446744074) cur = 290448384"
proof (intro conjI impI)
  have num: "interval_seconds fconv v = Some n \<Longrightarrow>
      resolveInterval fconv v cur = (if seconds n \<le> 0 then Minute else seconds n)"
    by (cases "(fconv, v)" rule: interval_seconds.cases) (auto simp: resolveInterval_def Let_def)
  show "resolveInterval fconv v cur = n * Second"
    if "interval_seconds fconv v = Some n" and "1 \<le> n \<and> n \<le> 9223372036"
    using num that by (simp add: seconds_exact Second_def)
  show "resolveInterval fconv v cur = Minute"
    if "interval_seconds fconv v = Some n" and "- 9223372036 \<le> n \<and> n < 1"
    using num that by (simp add: seconds_exact Second_def)
  show "resolveInterval fconv v cur = Minute" if "interval_seconds fconv v = None" "v \<noteq> ANil"
    using that
    by (cases "(fconv, v)" rule: interval_seconds.cases) (auto simp: resolveInterval_def Let_def)
  show "resolveInterval fconv (AInt 18446744074) cur = 290448384"
    by (simp add: resolveInterval_def seconds_def wrap64_def Second_def)
qed

theorem interval_behaviour_witness:
  "resolveInterval (\<lambda>_. 0) (AStr ''30'') 0 = 30 * Second \<and>
   resolveInterval (\<lambda>_. 0) (AFloat (Flt 3 (-1))) 0 = Second \<and>
   resolveInterval (\<lambda>_. 0) (AStr ''soon'') 0 = Minute \<and>
   resolveInterval (\<lambda>_. 0) (ABool True) 5 = Minute"
proof (intro conjI)
  note ib = interval_behaviour [where fconv = "\<lambda>_. 0"]
  have s: "Atoi ''30'' = 30" "Atoi ''soon'' = 0"
    by (simp_all add: Atoi_def parse_digits_def is_digit_def digit_val_def maxUint64_def)
  have f: "float_to_int64 (\<lambda>_. 0) (Flt 3 (-1)) = 1"
    by (simp add: float_to_int64_def in64_def)
  show "resolveInterval (\<lambda>_. 0) (AStr ''30'') 0 = 30 * Second"
    using s by (intro ib [THEN conjunct1, rule_format]) simp_all
  show "resolveInterval (\<lambda>_. 0) (AFloat (Flt 3 (-1))) 0 = Second"
    using f ib [THEN conjunct1, rule_format, of "AFloat (Flt 3 (-1))" 1 0] by simp
  show "resolveInterval (\<lambda>_. 0) (AStr ''soon'') 0 = Minute"
    using s by (intro ib [THEN conjunct2, THEN conjunct1, rule_format, of _ 0]) simp_all
  show "resolveInterval (\<lambda>_. 0) (ABool True) 5 = Minute"
    by (intro ib [THEN conjunct2, THEN conjunct2, THEN conjunct1, rule_format]) simp_all
qed

section \<open>Normalized nodes\<close>

definition acceptable :: "NodeInfo \<Rightarrow> bool" where
  "acceptable cfg \<longleftrightarrow> ni_Protocol cfg = ''sudoku'' \<and> 0 < ni_ServerPort cfg \<and>
     (st_MasterPublicKey (ni_EncryptionSettings cfg) \<noteq> '''' \<or>
      st_MasterPrivateKey (ni_EncryptionSettings cfg) \<noteq> '''')"

definition normalized :: "int \<Rightarrow> string \<Rightarrow> NodeInfo \<Rightarrow> bool" where
  "normalized nodeID apiHost cfg \<longleftrightarrow> acceptable cfg \<and> ni_Id cfg = nodeID \<and>
     ni_Tag cfg = nodeTag apiHost nodeID \<and> ni_ListenIP cfg \<noteq> '''' \<and>
     0 < ni_PushInterval cfg \<and> 0 < ni_PullInterval cfg"

definition settleNode :: "(float64 \<Rightarrow> int64) \<Rightarrow> NodeInfo \<Rightarrow> int \<Rightarrow> string \<Rightarrow> NodeInfo" where
  "settleNode fconv cfg nodeID apiHost = cfg\<lparr>ni_Id := nodeID, ni_Tag := nodeTag apiHost nodeID,
     ni_ListenIP := (if ni_ListenIP cfg = '''' then ''0.0.0.0'' else ni_ListenIP cfg),
     ni_PushInterval := resolveInterval fconv (bc_PushInterval (ni_BaseConfig cfg)) (ni_PushInterval cfg),
     ni_PullInterval := resolveInterval fconv (bc_PullInterval (ni_BaseConfig cfg)) (ni_PullInterval cfg)\<rparr>"

lemma Normalize_acceptable:
  "fst (Normalize fconv cfg nodeID apiHost) = None \<longleftrightarrow> acceptable cfg"
  by (simp add: Normalize_def acceptable_def Let_def)

lemma Normalize_ok:
  "acceptable cfg \<Longrightarrow> Normalize fconv cfg nodeID apiHost = (None, settleNode fconv cfg nodeID apiHost)"
  by (simp add: Normalize_def acceptable_def settleNode_def Let_def)

lemma acceptable_settleNode [simp]:
  "acceptable (settleNode fconv cfg nodeID apiHost) = acceptable cfg"
  by (simp add: acceptable_def settleNode_def)

lemma settleNode_again [simp]:
  "settleNode fconv (settleNode fconv cfg nodeID apiHost) nodeID apiHost = settleNode fconv cfg nodeID apiHost"
  by (simp add: settleNode_def)

lemma settleNode_settings [simp]:
  "ni_EncryptionSettings (settleNode fconv cfg nodeID apiHost) = ni_EncryptionSettings cfg"
  by (simp add: settleNode_def)

lemma normalized_settleNode:
  "acceptable cfg \<Longrightarrow> normalized nodeID apiHost (settleNode fconv cfg nodeID apiHost)"
  unfolding normalized_def by simp (simp add: settleNode_def)


definition sample_node :: NodeInfo where
  "sample_node = \<lparr>ni_Id = 0, ni_Tag = '''', ni_Protocol = ''sudoku'', ni_Host = ''example.com'',
     ni_ListenIP = '''', ni_Port = ANil, ni_ServerPort = 18080, ni_Network = '''',
     ni_NetworkSettings = '''', ni_Encryption = '''',
     ni_EncryptionSettings = (resolveSettings (\<lambda>_. '''') sample_raw),
     ni_BaseConfig = \<lparr>bc_PushInterval = AInt 30, bc_PullInterval = ANil,
       bc_DeviceOnlineMinTraffic = 0, bc_NodeReportMinTraffic = 0\<rparr>,
     ni_PushInterval = 0, ni_PullInterval = 0\<rparr>"

lemma sample_private_key: "st_MasterPrivateKey (ni_EncryptionSettings sample_node) = ''ab''"
proof -
  have "trimmed ''ab''" by (rule trimmed_plain) (simp add: plain_char_def)
  then show ?thesis by (simp add: sample_node_def resolveSettings_def Let_def sample_raw_def)
qed

lemma acceptable_sample: "acceptable sample_node"
  using sample_private_key by (simp add: acceptable_def sample_node_def)


end
