(* ===== verification/Go_OS.thy ===== *)
theory Go_OS
  imports Go_Strings
begin

text \<open>
  The operating system as the program sees it: files by path and, per path, the faults that
  may meet a call (an unreadable file, a directory that cannot be created, a file that
  cannot be created, a disk that fills up after some bytes, a rename that fails), and the
  number of random values drawn so far. \<open>MkdirAll(filepath.Dir(p))\<close> matters by whether it
  fails only, so its fault is attached to \<open>p\<close> itself.
\<close>

record os =
  os_files :: "string \<rightharpoonup> string"
  os_unreadable :: "string \<Rightarrow> bool"
  os_nodir :: "string \<Rightarrow> bool"
  os_nocreate :: "string \<Rightarrow> bool"
  os_space :: "string \<Rightarrow> nat option"
  os_norename :: "string \<Rightarrow> bool"
  os_draws :: nat

datatype os_error = NotExist | ReadFault | MkdirFault | CreateFault | DiskFull | RenameFault

definition ReadFile :: "string \<Rightarrow> os \<Rightarrow> os_error + string" where
  "ReadFile p w =
     (if os_unreadable w p then Inl ReadFault
      else case os_files w p of None \<Rightarrow> Inl NotExist | Some b \<Rightarrow> Inr b)"

definition MkdirFor :: "string \<Rightarrow> os \<Rightarrow> os_error option" where
  "MkdirFor p w = (if os_nodir w p then Some MkdirFault else None)"

text \<open>A write that fails for lack of space leaves what fitted.\<close>

definition WriteFile :: "string \<Rightarrow> string \<Rightarrow> os \<Rightarrow> os_error option \<times> os" where
  "WriteFile p b w =
     (if os_nocreate w p then (Some CreateFault, w)
      else case os_space w p of
        None \<Rightarrow> (None, w\<lparr>os_files := (os_files w)(p \<mapsto> b)\<rparr>)
      | Some n \<Rightarrow>
          if length b \<le> n then (None, w\<lparr>os_files := (os_files w)(p \<mapsto> b)\<rparr>)
          else (Some DiskFull, w\<lparr>os_files := (os_files w)(p \<mapsto> take n b)\<rparr>))"

definition Rename :: "string \<Rightarrow> string \<Rightarrow> os \<Rightarrow> os_error option \<times> os" where
  "Rename p q w =
     (if os_norename w q then (Some RenameFault, w)
      else case os_files w p of
        None \<Rightarrow> (Some NotExist, w)
      | Some b \<Rightarrow> (None, w\<lparr>os_files := ((os_files w)(p := None))(q \<mapsto> b)\<rparr>))"

text \<open>
  The way the program replaces a file (the client keys and the panel cache): make the
  directory, write beside it, rename over it.
\<close>

definition tmpPath :: "string \<Rightarrow> string" where
  "tmpPath p = p @ ''.tmp''"

definition replaceFile :: "string \<Rightarrow> string \<Rightarrow> os \<Rightarrow> os_error option \<times> os" where
  "replaceFile p b w =
     (case MkdirFor p w of
        Some e \<Rightarrow> (Some e, w)
      | None \<Rightarrow>
          (case WriteFile (tmpPath p) b w of
             (Some e, w') \<Rightarrow> (Some e, w')
           | (None, w') \<Rightarrow> Rename (tmpPath p) p w'))"

definition no_faults :: "os \<Rightarrow> string \<Rightarrow> bool" where
  "no_faults w p \<longleftrightarrow> \<not> os_unreadable w p \<and> \<not> os_nodir w p \<and> \<not> os_nocreate w (tmpPath p) \<and>
     os_space w (tmpPath p) = None \<and> \<not> os_norename w p"

lemma tmpPath_neq [simp]: "tmpPath p \<noteq> p" "p \<noteq> tmpPath p"
  by (simp_all add: tmpPath_def)

lemma WriteFile_files:
  "WriteFile p b w = (r, w') \<Longrightarrow> q \<noteq> p \<Longrightarrow> os_files w' q = os_files w q"
  by (auto simp: WriteFile_def split: if_splits option.splits)

lemma WriteFile_ok: "WriteFile p b w = (None, w') \<Longrightarrow> os_files w' p = Some b"
  by (auto simp: WriteFile_def split: if_splits option.splits)

lemma WriteFile_faults:
  "WriteFile p b w = (r, w') \<Longrightarrow> os_norename w' = os_norename w \<and> os_unreadable w' = os_unreadable w \<and> os_draws w' = os_draws w"
  by (auto simp: WriteFile_def split: if_splits option.splits)

lemma replaceFile_ok:
  assumes "replaceFile p b w = (None, w')"
  shows "os_files w' p = Some b" and "os_files w' (tmpPath p) = None"
    and "q \<noteq> p \<Longrightarrow> q \<noteq> tmpPath p \<Longrightarrow> os_files w' q = os_files w q"
  using assms
  by (auto simp: replaceFile_def MkdirFor_def Rename_def dest: WriteFile_ok WriteFile_files
      split: if_splits option.splits prod.splits)

lemma replaceFile_err:
  assumes "replaceFile p b w = (Some e, w')"
  shows "q \<noteq> tmpPath p \<Longrightarrow> os_files w' q = os_files w q"
  using assms
  by (auto simp: replaceFile_def MkdirFor_def Rename_def dest: WriteFile_ok WriteFile_files
      split: if_splits option.splits prod.splits)

lemma replaceFile_frame:
  assumes "replaceFile p b w = (r, w')"
  shows "os_draws w' = os_draws w" and "os_unreadable w' = os_unreadable w"
  using assms
  by (auto simp: replaceFile_def MkdirFor_def Rename_def dest: WriteFile_faults
      split: if_splits option.splits prod.splits)

lemma replaceFile_no_faults: "no_faults w p \<Longrightarrow> fst (replaceFile p b w) = None"
  by (auto simp: replaceFile_def MkdirFor_def Rename_def WriteFile_def no_faults_def
      split: option.splits prod.splits)

end
