(* ===== verification/Key_Store.thy ===== *)
theory Key_Store
  imports Sha2 Conf Panel_Node Go_OS
begin

text \<open>
  \<open>internal/runtime/key_store.go\<close>: how a user's Sudoku client key is found (derived from the
  master key, the UUID, a seed, or kept in the client key file), the mapping from key
  hashes to users that \<open>BuildMappings\<close> gives to the runtimes, and the key file.

  The Sudoku module's \<open>ParsePrivateScalar\<close> and \<open>SplitPrivateKey\<close> (a random split, so it takes
  the number of the draw) and the JSON form of the key file are arguments, bundled in
  \<open>keyenv\<close>; hashing, hex and the split arithmetic are the code's own.
\<close>

record UserKey =
  uk_UID :: int
  uk_UUID :: string
  uk_Key :: string
  uk_UserHash :: string

text \<open>
  The store: its configuration and the \<open>Users\<close> map of the key file, nil before the first load.
\<close>

record ClientKeyStore =
  ks_cfg :: RuntimeConfig
  ks_Users :: "(string \<rightharpoonup> string) option"

definition NewClientKeyStore :: "RuntimeConfig \<Rightarrow> ClientKeyStore" where
  "NewClientKeyStore cfg = \<lparr>ks_cfg = cfg, ks_Users = None\<rparr>"

datatype key_error =
    ReadKeyFile | DecodeKeyFile | SaveKeyFile os_error
  | SplitNeedsMaster | DecodeMaster | MasterLength
  | LimitReached int | AutoNeedsMaster | ParseMaster | SplitFailed
  | UnsupportedSource string

text \<open>
  What \<open>json.Unmarshal\<close> leaves in the \<open>Users\<close> map: on an error the members decoded before
  it, else the map, \<open>None\<close> for an explicit null.
\<close>

datatype key_json = KeyJSONError "string \<rightharpoonup> string" | KeyJSON "(string \<rightharpoonup> string) option"

record 'sc keyenv =
  ke_encode :: "(string \<rightharpoonup> string) \<Rightarrow> string"
  ke_decode :: "string \<Rightarrow> key_json"
  ke_ParsePrivateScalar :: "string \<Rightarrow> 'sc option"
  ke_SplitPrivateKey :: "nat \<Rightarrow> 'sc \<Rightarrow> string option"

section \<open>Key derivation\<close>

definition ed25519Order :: int where
  "ed25519Order = 0x1000000000000000000000000000000014def9dea2f79cd65812631a5cf5d3ed"

definition splitSeed :: "int \<Rightarrow> UserInfo \<Rightarrow> string \<Rightarrow> string" where
  "splitSeed nodeID user masterHex =
     ''v2sudoku|node:'' @ Itoa nodeID @ ''|uid:'' @ Itoa (ui_Id user) @ ''|uuid:'' @ ui_Uuid user
       @ ''|master:'' @ masterHex"

definition deterministicSplitKey :: "string \<Rightarrow> NodeInfo \<Rightarrow> UserInfo \<Rightarrow> key_error + string" where
  "deterministicSplitKey master0 node user =
     (let masterHex = TrimSpace master0
      in if masterHex = '''' then Inl SplitNeedsMaster
         else case hexDecode masterHex of
           None \<Rightarrow> Inl DecodeMaster
         | Some masterBytes \<Rightarrow>
             if length masterBytes \<noteq> 32 then Inl MasterLength
             else
               let master = littleEndianScalar masterBytes;
                   digest = Sum512 (bytes_of (splitSeed (ni_Id node) user masterHex));
                   r = littleEndianScalar digest mod ed25519Order;
                   k = (master - r) mod ed25519Order
               in Inr (hexEncode (scalarLittleEndian r @ scalarLittleEndian k)))"

definition deterministicUserKey :: "string \<Rightarrow> NodeInfo \<Rightarrow> UserInfo \<Rightarrow> string" where
  "deterministicUserKey seed0 node user =
     (let seed = (if seed0 = '''' then ''v2sudoku'' else seed0);
          raw = seed @ ''|node:'' @ Itoa (ni_Id node) @ ''|uid:'' @ Itoa (ui_Id user)
            @ ''|uuid:'' @ ui_Uuid user
      in hexEncode (Sum256 (bytes_of raw)))"

definition keyBytes :: "string \<Rightarrow> byte list" where
  "keyBytes key =
     (case hexDecode key of
        None \<Rightarrow> bytes_of key
      | Some raw \<Rightarrow> if raw = [] then bytes_of key else raw)"

definition userHashHex :: "string \<Rightarrow> string" where
  "userHashHex key0 = hexEncode (take 8 (Sum256 (keyBytes (TrimSpace key0))))"

definition normalizedClientKeySource :: "string \<Rightarrow> string" where
  "normalizedClientKeySource source0 =
     (let source = ToLower (TrimSpace source0)
      in if source = '''' then DefaultClientKeySource else source)"

section \<open>The key file\<close>

definition fileUsers :: "ClientKeyStore \<Rightarrow> string \<rightharpoonup> string" where
  "fileUsers s = (case ks_Users s of None \<Rightarrow> Map.empty | Some m \<Rightarrow> m)"

definition storedKey :: "ClientKeyStore \<Rightarrow> int \<Rightarrow> string" where
  "storedKey s uid = zero_of '''' (fileUsers s) (Itoa uid)"

definition loadFileLocked ::
  "'sc keyenv \<Rightarrow> os \<Rightarrow> ClientKeyStore \<Rightarrow> key_error option \<times> ClientKeyStore"
where
  "loadFileLocked K w s =
     (if ks_Users s \<noteq> None then (None, s)
      else
        let s1 = s\<lparr>ks_Users := Some Map.empty\<rparr>
        in case ReadFile (rc_ClientKeyFile (ks_cfg s)) w of
             Inl NotExist \<Rightarrow> (None, s1)
           | Inl _ \<Rightarrow> (Some ReadKeyFile, s1)
           | Inr body \<Rightarrow>
               if TrimSpace body = '''' then (None, s1)
               else case ke_decode K body of
                 KeyJSONError partial \<Rightarrow> (Some DecodeKeyFile, s\<lparr>ks_Users := Some partial\<rparr>)
               | KeyJSON None \<Rightarrow> (None, s1)
               | KeyJSON (Some m) \<Rightarrow> (None, s\<lparr>ks_Users := Some m\<rparr>))"

definition saveFileLocked :: "'sc keyenv \<Rightarrow> ClientKeyStore \<Rightarrow> os \<Rightarrow> os_error option \<times> os" where
  "saveFileLocked K s w =
     replaceFile (rc_ClientKeyFile (ks_cfg s)) (ke_encode K (fileUsers s) @ [CHR 0x0A]) w"

section \<open>Resolving one key, building the mappings\<close>

definition resolveKeyLocked ::
  "'sc keyenv \<Rightarrow> ClientKeyStore \<Rightarrow> NodeInfo \<Rightarrow> UserInfo \<Rightarrow> string \<Rightarrow> os \<Rightarrow> (key_error + string) \<times> os"
where
  "resolveKeyLocked K s node user source w =
     (let masterKey = st_MasterPrivateKey (ni_EncryptionSettings node) in
      if source = ''deterministic_split'' \<or> source = ''split''
        then (deterministicSplitKey masterKey node user, w)
      else if source = ''uuid'' then (Inr (TrimSpace (ui_Uuid user)), w)
      else if source = ''deterministic''
        then (Inr (deterministicUserKey (rc_ClientKeySeed (ks_cfg s)) node user), w)
      else if source = ''file'' \<or> source = ''auto'' then
        let key = TrimSpace (storedKey s (ui_Id user)) in
        if key \<noteq> '''' then (Inr key, w)
        else if source = ''file'' then (Inr '''', w)
        else if int (card (dom (fileUsers s))) \<ge> rc_MaxClientKeyFileUsers (ks_cfg s)
          then (Inl (LimitReached (rc_MaxClientKeyFileUsers (ks_cfg s))), w)
        else if masterKey = '''' then (Inl AutoNeedsMaster, w)
        else (case ke_ParsePrivateScalar K masterKey of
            None \<Rightarrow> (Inl ParseMaster, w)
          | Some master \<Rightarrow>
              (case ke_SplitPrivateKey K (os_draws w) master of
                 None \<Rightarrow> (Inl SplitFailed, w)
               | Some key' \<Rightarrow> (Inr key', w\<lparr>os_draws := Suc (os_draws w)\<rparr>)))
      else (Inl (UnsupportedSource source), w))"

definition keyEntry :: "UserInfo \<Rightarrow> string \<Rightarrow> UserKey" where
  "keyEntry user key = \<lparr>uk_UID = ui_Id user, uk_UUID = ui_Uuid user, uk_Key = key,
     uk_UserHash = userHashHex key\<rparr>"

definition usesFile :: "string \<Rightarrow> bool" where
  "usesFile source \<longleftrightarrow> source = ''auto'' \<or> source = ''file''"

definition rememberKey :: "string \<Rightarrow> int \<Rightarrow> string \<Rightarrow> ClientKeyStore \<times> bool \<Rightarrow> ClientKeyStore \<times> bool" where
  "rememberKey source uid key sc =
     (case sc of (s, changed) \<Rightarrow>
        if usesFile source \<and> storedKey s uid = ''''
        then (s\<lparr>ks_Users := Some ((fileUsers s)(Itoa uid \<mapsto> key))\<rparr>, True)
        else (s, changed))"

fun buildLoop ::
  "'sc keyenv \<Rightarrow> NodeInfo \<Rightarrow> string \<Rightarrow> UserInfo list \<Rightarrow> UserKey list \<Rightarrow> bool \<Rightarrow> ClientKeyStore \<Rightarrow> os \<Rightarrow>
   (key_error + UserKey list \<times> bool) \<times> ClientKeyStore \<times> os"
where
  "buildLoop K node source [] out changed s w = (Inr (out, changed), s, w)"
| "buildLoop K node source (user # users) out changed s w =
     (case resolveKeyLocked K s node user source w of
        (Inl e, w') \<Rightarrow> (Inl e, s, w')
      | (Inr key, w') \<Rightarrow>
          if key = '''' then buildLoop K node source users out changed s w'
          else (case rememberKey source (ui_Id user) key (s, changed) of
                  (s', changed') \<Rightarrow>
                    buildLoop K node source users (out @ [keyEntry user key]) changed' s' w'))"

definition BuildMappings ::
  "'sc keyenv \<Rightarrow> NodeInfo \<Rightarrow> UserInfo list \<Rightarrow> ClientKeyStore \<Rightarrow> os \<Rightarrow>
   (key_error + UserKey list) \<times> ClientKeyStore \<times> os"
where
  "BuildMappings K node users s w =
     (let source = normalizedClientKeySource (rc_ClientKeySource (ks_cfg s)) in
      case (if usesFile source then loadFileLocked K w s else (None, s)) of
        (Some e, s1) \<Rightarrow> (Inl e, s1, w)
      | (None, s1) \<Rightarrow>
          (case buildLoop K node source users [] False s1 w of
             (Inl e, s2, w2) \<Rightarrow> (Inl e, s2, w2)
           | (Inr (out, changed), s2, w2) \<Rightarrow>
               let out' = sort_slice uk_UID out in
               if changed
               then (case saveFileLocked K s2 w2 of
                       (Some e, w3) \<Rightarrow> (Inl (SaveKeyFile e), s2, w3)
                     | (None, w3) \<Rightarrow> (Inr out', s2, w3))
               else (Inr out', s2, w2)))"

section \<open>Split keys\<close>

lemma ed25519Order_bounds: "0 < ed25519Order" "ed25519Order < 2 ^ 256"
  by (simp_all add: ed25519Order_def)

lemma scalar_mod_order [simp]: "littleEndianScalar (scalarLittleEndian (v mod ed25519Order)) = v mod ed25519Order"
proof -
  have "0 \<le> v mod ed25519Order" "v mod ed25519Order < 2 ^ 256"
    using ed25519Order_bounds(1) order.strict_trans [OF pos_mod_bound [OF ed25519Order_bounds(1), of v] ed25519Order_bounds(2)]
    by simp_all
  then have "readScalar32 (scalarLittleEndian (v mod ed25519Order)) = Some (v mod ed25519Order)"
    by (intro scalar.dcd_enc conjI)
  then show ?thesis by (simp add: readScalar32_def)
qed

lemma deterministicSplitKey_InrD:
  assumes "deterministicSplitKey mk node user = Inr key"
  obtains mb r where "hexDecode (TrimSpace mk) = Some mb" "length mb = 32"
    "key = hexEncode (scalarLittleEndian (r mod ed25519Order) @
      scalarLittleEndian ((littleEndianScalar mb - r mod ed25519Order) mod ed25519Order))"
  using assms by (auto simp: deterministicSplitKey_def Let_def split: if_splits option.splits)

text \<open>
  C20. A derived split key is a split of the master key: it is 128 hex digits, two 32-byte
  little-endian scalars below the group order whose sum is the panel's master scalar
  modulo the order, so that the public key the node checks is the same for every user.
\<close>

theorem split_key_recovers_master:
  assumes "deterministicSplitKey mk node user = Inr key"
  shows "\<exists>raw mb. length key = 128 \<and> hexDecode key = Some raw \<and> length raw = 64 \<and>
    hexDecode (TrimSpace mk) = Some mb \<and> length mb = 32 \<and>
    littleEndianScalar (take 32 raw) < ed25519Order \<and> littleEndianScalar (drop 32 raw) < ed25519Order \<and>
    (littleEndianScalar (take 32 raw) + littleEndianScalar (drop 32 raw)) mod ed25519Order =
      littleEndianScalar mb mod ed25519Order"
proof -
  obtain mb r where mb: "hexDecode (TrimSpace mk) = Some mb" "length mb = 32"
    and key: "key = hexEncode (scalarLittleEndian (r mod ed25519Order) @
      scalarLittleEndian ((littleEndianScalar mb - r mod ed25519Order) mod ed25519Order))"
    using assms by (elim deterministicSplitKey_InrD)
  let ?raw = "scalarLittleEndian (r mod ed25519Order) @
      scalarLittleEndian ((littleEndianScalar mb - r mod ed25519Order) mod ed25519Order)"
  have "(r mod ed25519Order + (littleEndianScalar mb - r mod ed25519Order) mod ed25519Order) mod ed25519Order
      = littleEndianScalar mb mod ed25519Order"
    by (simp only: mod_add_right_eq) simp
  then show ?thesis
    using mb key ed25519Order_bounds
    by (intro exI [of _ ?raw] exI [of _ mb]) (simp add: hexDecode_hexEncode)
qed

text \<open>
  A split key is refused exactly when the master key, trimmed, is not the hex form of 32
  bytes; the three errors tell a missing key, bad hex and a wrong length apart.
\<close>

theorem split_key_errors:
  "((\<exists>key. deterministicSplitKey mk node user = Inr key) \<longleftrightarrow>
      (\<exists>mb. hexDecode (TrimSpace mk) = Some mb \<and> length mb = 32)) \<and>
   (deterministicSplitKey mk node user = Inl SplitNeedsMaster \<longleftrightarrow> TrimSpace mk = '''') \<and>
   (deterministicSplitKey mk node user = Inl DecodeMaster \<longleftrightarrow> hexDecode (TrimSpace mk) = None) \<and>
   (deterministicSplitKey mk node user = Inl MasterLength \<longleftrightarrow>
      (\<exists>mb. hexDecode (TrimSpace mk) = Some mb \<and> mb \<noteq> [] \<and> length mb \<noteq> 32))"
proof -
  have nil: "hexDecode s = Some [] \<longleftrightarrow> s = ''''" for s
    using hexDecode_length [of s "[]"] by auto
  show ?thesis
    by (auto simp: deterministicSplitKey_def Let_def nil split: option.splits)
qed

text \<open>
  C25. No two users share a derivation: under one master key the hashed seeds of two
  (node, user id, UUID) triples are equal only if the triples are, so two split keys can
  coincide only where SHA-512 collides. UUIDs may hold any characters, separators included.
\<close>

theorem splitSeed_injective:
  assumes "in64 n" "in64 n'" "in64 (ui_Id u)" "in64 (ui_Id u')" "length mk = length mk'"
  shows "splitSeed n u mk = splitSeed n' u' mk' \<longleftrightarrow>
    n = n' \<and> ui_Id u = ui_Id u' \<and> ui_Uuid u = ui_Uuid u' \<and> mk = mk'"
proof
  let ?tail = "\<lambda>u mk. ''uuid:'' @ ui_Uuid u @ ''|master:'' @ mk"
  let ?mid = "\<lambda>u mk. ''uid:'' @ Itoa (ui_Id u) @ ''|'' @ ?tail u mk"
  assume "splitSeed n u mk = splitSeed n' u' mk'"
  then have "Itoa n @ ''|'' @ ?mid u mk = Itoa n' @ ''|'' @ ?mid u' mk'"
    by (simp add: splitSeed_def)
  then have "Itoa n = Itoa n' \<and> ?mid u mk = ?mid u' mk'"
    by (rule sep_split) (rule Itoa_no_sep)+
  then have n: "Itoa n = Itoa n'" and mid: "?mid u mk = ?mid u' mk'" by (rule conjunct1, rule conjunct2)
  from mid have "Itoa (ui_Id u) @ ''|'' @ ?tail u mk = Itoa (ui_Id u') @ ''|'' @ ?tail u' mk'"
    by (simp only: same_append_eq)
  then have "Itoa (ui_Id u) = Itoa (ui_Id u') \<and> ?tail u mk = ?tail u' mk'"
    by (rule sep_split) (rule Itoa_no_sep)+
  then have i: "Itoa (ui_Id u) = Itoa (ui_Id u')" and tail: "?tail u mk = ?tail u' mk'"
    by (rule conjunct1, rule conjunct2)
  from tail have "(ui_Uuid u @ ''|master:'') @ mk = (ui_Uuid u' @ ''|master:'') @ mk'"
    by (simp only: same_append_eq append_assoc)
  then have "ui_Uuid u @ ''|master:'' = ui_Uuid u' @ ''|master:'' \<and> mk = mk'"
    using append_eq_append_conv [OF disjI2 [OF assms(5)]] by (simp only:)
  then have "ui_Uuid u = ui_Uuid u'" "mk = mk'" by (simp_all only: append_same_eq)
  with n i show "n = n' \<and> ui_Id u = ui_Id u' \<and> ui_Uuid u = ui_Uuid u' \<and> mk = mk'"
    using itoa.enc_eq_iff assms by blast
qed (simp add: splitSeed_def)

definition sampleUser :: "int \<Rightarrow> string \<Rightarrow> UserInfo" where
  "sampleUser i u = zeroUser\<lparr>ui_Id := i, ui_Uuid := u\<rparr>"

lemma sampleUser_simps [simp]: "ui_Id (sampleUser i u) = i" "ui_Uuid (sampleUser i u) = u"
  by (simp_all add: sampleUser_def)

theorem splitSeed_injective_witness:
  "splitSeed 1 (sampleUser 2 ''x|uid:3'') ''ab'' \<noteq> splitSeed 1 (sampleUser 2 ''x'') ''ab''"
  using splitSeed_injective [of 1 1 "sampleUser 2 ''x|uid:3''" "sampleUser 2 ''x''" "''ab''" "''ab''"]
  by (simp add: in64_def)

definition sampleMaster :: string where
  "sampleMaster = ''00112233445566778899aabbccddeeff00112233445566778899aabbccddeeff''"

lemma sampleMaster_ok: "\<exists>mb. hexDecode (TrimSpace sampleMaster) = Some mb \<and> length mb = 32"
proof -
  have "trimmed sampleMaster" by (rule trimmed_plain) (simp add: sampleMaster_def plain_char_def)
  then show ?thesis by (simp add: sampleMaster_def hexVal_def)
qed

theorem split_key_recovers_master_witness:
  "\<exists>key raw. deterministicSplitKey sampleMaster sample_node (sampleUser 7 ''u7'') = Inr key \<and>
     hexDecode key = Some raw \<and> length raw = 64"
proof -
  obtain key where key: "deterministicSplitKey sampleMaster sample_node (sampleUser 7 ''u7'') = Inr key"
    using split_key_errors sampleMaster_ok by blast
  with split_key_recovers_master [OF key] show ?thesis by blast
qed




section \<open>What BuildMappings promises\<close>

lemmas store_simps = fileUsers_def storedKey_def usesFile_def rememberKey_def

lemma resolveKey_frame:
  "resolveKeyLocked K s node user source w = (r, w') \<Longrightarrow> os_files w' = os_files w"
  by (auto simp: resolveKeyLocked_def Let_def split: if_splits option.splits)

lemma rememberKey_cfg: "rememberKey source uid key (s, c) = (s', c') \<Longrightarrow> ks_cfg s' = ks_cfg s"
  by (auto simp: rememberKey_def split: if_splits)

lemma buildLoop_cfg:
  "buildLoop K node source users out ch s w = (r, s', w') \<Longrightarrow> ks_cfg s' = ks_cfg s \<and> os_files w' = os_files w"
proof (induction K node source users out ch s w rule: buildLoop.induct)
  case (2 K node source user users out changed s w)
  then show ?case
    by (fastforce split: prod.splits sum.splits if_splits dest: rememberKey_cfg resolveKey_frame)
qed simp

text \<open>The entries a loop appends, one for each user whose key is not blank.\<close>

definition entry_of :: "UserInfo list \<Rightarrow> UserKey \<Rightarrow> bool" where
  "entry_of users e \<longleftrightarrow> (\<exists>u \<in> set users. \<exists>key. key \<noteq> '''' \<and> e = keyEntry u key)"

lemma buildLoop_entries:
  "buildLoop K node source users out ch s w = (Inr (out', ch'), s', w') \<Longrightarrow>
   \<exists>es. out' = out @ es \<and> (\<forall>e \<in> set es. entry_of users e) \<and> length es \<le> length users"
proof (induction users arbitrary: out ch s w)
  case (Cons user users)
  obtain key w1 where r: "resolveKeyLocked K s node user source w = (Inr key, w1)"
    using Cons.prems by (auto split: prod.splits sum.splits)
  show ?case
  proof (cases "key = ''''")
    case True
    with Cons.prems r have "buildLoop K node source users out ch s w1 = (Inr (out', ch'), s', w')" by simp
    from Cons.IH [OF this] show ?thesis by (fastforce simp: entry_of_def)
  next
    case False
    obtain s1 c1 where m: "rememberKey source (ui_Id user) key (s, ch) = (s1, c1)" by fastforce
    with Cons.prems r False
    have "buildLoop K node source users (out @ [keyEntry user key]) c1 s1 w1 = (Inr (out', ch'), s', w')"
      by simp
    from Cons.IH [OF this] obtain es where "out' = out @ keyEntry user key # es"
      "\<forall>e \<in> set es. entry_of users e" "length es \<le> length users" by auto
    then show ?thesis
      using False by (intro exI [of _ "keyEntry user key # es"]) (auto simp: entry_of_def)
  qed
qed simp

lemma BuildMappings_InrD:
  assumes "BuildMappings K node users s w = (Inr out, s', w')"
  obtains s1 es ch w2 where
    "(if usesFile (normalizedClientKeySource (rc_ClientKeySource (ks_cfg s)))
      then loadFileLocked K w s else (None, s)) = (None, s1)"
    "buildLoop K node (normalizedClientKeySource (rc_ClientKeySource (ks_cfg s))) users [] False s1 w
      = (Inr (es, ch), s', w2)"
    "out = sort_slice uk_UID es"
    "if ch then saveFileLocked K s' w2 = (None, w') else w' = w2"
  using assms
  by (auto simp: BuildMappings_def Let_def split: prod.splits sum.splits option.splits if_splits)

text \<open>
  C23. Every mapping \<open>BuildMappings\<close> returns belongs to one of the users it was given: the
  entries are sorted by user id, no more than the users, each with a nonblank key of one
  of those users, under that user's id and UUID, and hashed as the protocol hashes it.
\<close>

theorem BuildMappings_sound:
  assumes "BuildMappings K node users s w = (Inr out, s', w')"
  shows "sorted (map uk_UID out) \<and> length out \<le> length users \<and>
    (\<forall>e. e \<in> set out \<longrightarrow> (\<exists>u. u \<in> set users \<and> uk_UID e = ui_Id u \<and> uk_UUID e = ui_Uuid u \<and>
       uk_Key e \<noteq> '''' \<and> uk_UserHash e = userHashHex (uk_Key e)))"
proof -
  obtain s1 es ch w2 where
    "buildLoop K node (normalizedClientKeySource (rc_ClientKeySource (ks_cfg s))) users [] False s1 w
      = (Inr (es, ch), s', w2)" and out: "out = sort_slice uk_UID es"
    using assms by (elim BuildMappings_InrD)
  from buildLoop_entries [OF this(1)] have "\<forall>e \<in> set es. entry_of users e" "length es \<le> length users"
    by auto
  then show ?thesis by (fastforce simp: out entry_of_def keyEntry_def)
qed

section \<open>Generated keys: the auto source\<close>

text \<open>Looking a key up after it is stored.\<close>

lemma storedKey_remember:
  assumes "rememberKey source uid key (s, c) = (s', c')" and "in64 uid" and "in64 uid'"
  shows "storedKey s' uid' =
    (if usesFile source \<and> storedKey s uid = '''' \<and> uid' = uid then key else storedKey s uid')"
  using assms itoa.enc_eq_iff [of uid' uid]
  by (auto simp: rememberKey_def storedKey_def fileUsers_def map_simps split: if_splits)

lemma dom_remember:
  assumes "rememberKey source uid key (s, c) = (s', c')"
  shows "dom (fileUsers s') \<subseteq> insert (Itoa uid) (dom (fileUsers s))"
  using assms by (auto simp: rememberKey_def fileUsers_def split: if_splits)

text \<open>The key file never grows past its limit.\<close>

lemma remember_limit:
  assumes r: "resolveKeyLocked K s node user source w = (Inr key, w')" and "key \<noteq> ''''"
    and u: "usesFile source" and m: "rememberKey source (ui_Id user) key (s, c) = (s', c')"
    and fin: "finite (dom (fileUsers s))"
  shows "finite (dom (fileUsers s')) \<and> int (card (dom (fileUsers s'))) \<le>
    max (rc_MaxClientKeyFileUsers (ks_cfg s)) (int (card (dom (fileUsers s))))"
proof (cases "storedKey s (ui_Id user) = ''''")
  case False
  with m fin show ?thesis by (simp add: rememberKey_def)
next
  case True
  with r u \<open>key \<noteq> ''''\<close> have lim: "int (card (dom (fileUsers s))) < rc_MaxClientKeyFileUsers (ks_cfg s)"
    by (auto simp: resolveKeyLocked_def Let_def usesFile_def split: if_splits)
  have "card (dom (fileUsers s')) \<le> card (insert (Itoa (ui_Id user)) (dom (fileUsers s)))"
    by (rule card_mono) (use fin dom_remember [OF m] in auto)
  also have "\<dots> \<le> Suc (card (dom (fileUsers s)))" by (rule card_insert_le_m1) (use fin in auto)
  finally show ?thesis
    using lim fin dom_remember [OF m] by (auto intro: finite_subset)
qed

definition no_blank_keys :: "ClientKeyStore \<Rightarrow> bool" where
  "no_blank_keys s \<longleftrightarrow> (\<forall>k v. fileUsers s k = Some v \<longrightarrow> v = '''' \<or> TrimSpace v \<noteq> '''')"

definition splits_trimmed :: "'sc keyenv \<Rightarrow> bool" where
  "splits_trimmed K \<longleftrightarrow> (\<forall>n m k. ke_SplitPrivateKey K n m = Some k \<longrightarrow> k \<noteq> '''' \<and> trimmed k)"

definition valid_ids :: "UserInfo list \<Rightarrow> bool" where
  "valid_ids users \<longleftrightarrow> (\<forall>u \<in> set users. in64 (ui_Id u))"

lemma storedKey_cases:
  "storedKey s uid = '''' \<or> (\<exists>v. fileUsers s (Itoa uid) = Some v \<and> storedKey s uid = v)"
  by (cases "fileUsers s (Itoa uid)") (auto simp: storedKey_def)

lemma no_blank_storedKey: "no_blank_keys s \<Longrightarrow> storedKey s uid = '''' \<or> TrimSpace (storedKey s uid) \<noteq> ''''"
  using storedKey_cases [of s uid] by (auto simp: no_blank_keys_def)

lemma resolve_auto:
  assumes "resolveKeyLocked K s node user ''auto'' w = (Inr key, w')" and "splits_trimmed K"
  shows "key \<noteq> '''' \<and> trimmed key \<and> (TrimSpace (storedKey s (ui_Id user)) \<noteq> '''' \<longrightarrow>
    key = TrimSpace (storedKey s (ui_Id user)) \<and> w' = w) \<and> w' = w\<lparr>os_draws := os_draws w'\<rparr>"
  using assms
  by (auto simp: resolveKeyLocked_def Let_def splits_trimmed_def split: if_splits option.splits)

lemma resolve_auto_stored:
  assumes "TrimSpace (storedKey s (ui_Id user)) \<noteq> ''''"
  shows "resolveKeyLocked K s node user ''auto'' w = (Inr (TrimSpace (storedKey s (ui_Id user))), w)"
  using assms by (simp add: resolveKeyLocked_def Let_def)

lemma auto_step:
  assumes r: "resolveKeyLocked K s node user ''auto'' w = (Inr key, w')" and K: "splits_trimmed K"
    and nb: "no_blank_keys s" and id: "in64 (ui_Id user)"
    and m: "rememberKey ''auto'' (ui_Id user) key (s, c) = (s', c')"
  shows "TrimSpace (storedKey s' (ui_Id user)) = key" and "no_blank_keys s'"
    and "in64 uid \<Longrightarrow> storedKey s uid \<noteq> '''' \<Longrightarrow> storedKey s' uid = storedKey s uid"
proof -
  note key = resolve_auto [OF r K]
  show "TrimSpace (storedKey s' (ui_Id user)) = key"
    using storedKey_remember [OF m id id] key no_blank_storedKey [OF nb, of "ui_Id user"]
    by (auto simp: usesFile_def)
  show "no_blank_keys s'"
  proof (cases "storedKey s (ui_Id user) = ''''")
    case True
    then have f: "fileUsers s' = (fileUsers s)(Itoa (ui_Id user) \<mapsto> key)"
      using m by (auto simp: rememberKey_def usesFile_def fileUsers_def)
    have "TrimSpace key \<noteq> ''''" using key by (auto simp: trimmed_def)
    with nb show ?thesis unfolding no_blank_keys_def f by simp
  next
    case False
    then show ?thesis using m nb by (simp add: rememberKey_def)
  qed
  show "in64 uid \<Longrightarrow> storedKey s uid \<noteq> '''' \<Longrightarrow> storedKey s' uid = storedKey s uid"
    using storedKey_remember [OF m id, of uid] by auto
qed

definition stored_entries :: "ClientKeyStore \<Rightarrow> UserInfo list \<Rightarrow> UserKey list" where
  "stored_entries s users = map (\<lambda>u. keyEntry u (TrimSpace (storedKey s (ui_Id u)))) users"

definition all_stored :: "ClientKeyStore \<Rightarrow> UserInfo list \<Rightarrow> bool" where
  "all_stored s users \<longleftrightarrow> (\<forall>u \<in> set users. TrimSpace (storedKey s (ui_Id u)) \<noteq> '''')"

lemma TrimSpace_nonempty_stored: "TrimSpace k \<noteq> '''' \<Longrightarrow> k \<noteq> ''''"
  by auto

lemma auto_loop:
  assumes "buildLoop K node ''auto'' users out ch s w = (Inr (out', ch'), s', w')"
    and "splits_trimmed K" and "no_blank_keys s" and "valid_ids users"
  shows "out' = out @ stored_entries s' users \<and> all_stored s' users \<and>
    (\<forall>uid. in64 uid \<longrightarrow> storedKey s uid \<noteq> '''' \<longrightarrow> storedKey s' uid = storedKey s uid) \<and>
    (ch' \<or> (s' = s \<and> \<not> ch)) \<and> w' = w\<lparr>os_draws := os_draws w'\<rparr>"
  using assms
proof (induction users arbitrary: out ch s w)
  case Nil
  then show ?case by (auto simp: stored_entries_def all_stored_def)
next
  case (Cons user users)
  obtain key w1 where r: "resolveKeyLocked K s node user ''auto'' w = (Inr key, w1)"
    using Cons.prems(1) by (auto split: prod.splits sum.splits)
  obtain s1 c1 where m: "rememberKey ''auto'' (ui_Id user) key (s, ch) = (s1, c1)" by fastforce
  note key = resolve_auto [OF r Cons.prems(2)]
  have id: "in64 (ui_Id user)" and ids: "valid_ids users"
    using Cons.prems(4) by (auto simp: valid_ids_def)
  note st = auto_step [OF r Cons.prems(2,3) id m]
  have "buildLoop K node ''auto'' users (out @ [keyEntry user key]) c1 s1 w1 = (Inr (out', ch'), s', w')"
    using Cons.prems(1) r m key by simp
  from Cons.IH [OF this Cons.prems(2) st(2) ids]
  have IH: "out' = (out @ [keyEntry user key]) @ stored_entries s' users" "all_stored s' users"
    "\<And>uid. in64 uid \<Longrightarrow> storedKey s1 uid \<noteq> '''' \<Longrightarrow> storedKey s' uid = storedKey s1 uid"
    "ch' \<or> (s' = s1 \<and> \<not> c1)" "w' = w1\<lparr>os_draws := os_draws w'\<rparr>" by blast+
  have same: "storedKey s' (ui_Id user) = storedKey s1 (ui_Id user)"
    using IH(3) [OF id] st(1) key by fastforce
  have "c1 \<or> (s1 = s \<and> \<not> ch)" using m by (auto simp: rememberKey_def split: if_splits)
  moreover have "storedKey s' uid = storedKey s uid" if "in64 uid" "storedKey s uid \<noteq> ''''" for uid
    using st(3) [OF that] IH(3) [OF that(1)] that(2) by simp
  moreover have "w' = w\<lparr>os_draws := os_draws w'\<rparr>" using IH(5) key
    by (metis os.surjective os.update_convs(7))
  ultimately show ?case
    using IH same st(1) key by (auto simp: stored_entries_def all_stored_def)
qed

lemma auto_rerun:
  assumes "all_stored s users"
  shows "buildLoop K node ''auto'' users out ch s w = (Inr (out @ stored_entries s users, ch), s, w)"
  using assms
proof (induction users arbitrary: out)
  case (Cons user users)
  then have k: "TrimSpace (storedKey s (ui_Id user)) \<noteq> ''''" by (simp add: all_stored_def)
  have "rememberKey ''auto'' (ui_Id user) (TrimSpace (storedKey s (ui_Id user))) (s, ch) = (s, ch)"
    using TrimSpace_nonempty_stored [OF k] by (simp add: rememberKey_def)
  with Cons k show ?case
    by (simp add: resolve_auto_stored all_stored_def stored_entries_def)
qed (simp add: stored_entries_def)

section \<open>The key file over several builds\<close>

lemma loadFile_loaded [simp]: "ks_Users s = Some m \<Longrightarrow> loadFileLocked K w s = (None, s)"
  by (simp add: loadFileLocked_def)

lemma loadFile_cfg: "loadFileLocked K w s = (e, s1) \<Longrightarrow> ks_cfg s1 = ks_cfg s \<and> ks_Users s1 \<noteq> None"
  by (auto simp: loadFileLocked_def Let_def split: if_splits sum.splits os_error.splits key_json.splits option.splits)

lemma buildLoop_dom:
  "buildLoop K node source users out ch s w = (r, s', w') \<Longrightarrow>
   dom (fileUsers s') \<subseteq> dom (fileUsers s) \<union> (Itoa \<circ> ui_Id) ` set users"
proof (induction users arbitrary: out ch s w)
  case (Cons user users)
  obtain k w1 where r: "resolveKeyLocked K s node user source w = (k, w1)" by fastforce
  obtain s1 c1 where m: "rememberKey source (ui_Id user) (projr k) (s, ch) = (s1, c1)" by fastforce
  show ?case
    using Cons.prems r m dom_remember [OF m]
    by (auto split: sum.splits if_splits dest!: Cons.IH) blast+
qed simp

lemma buildLoop_limit:
  assumes "buildLoop K node source users out ch s w = (r, s', w')" and "usesFile source"
    and "finite (dom (fileUsers s))"
  shows "finite (dom (fileUsers s')) \<and> int (card (dom (fileUsers s'))) \<le>
    max (rc_MaxClientKeyFileUsers (ks_cfg s)) (int (card (dom (fileUsers s))))"
  using assms
proof (induction users arbitrary: out ch s w)
  case (Cons user users)
  obtain k w1 where r: "resolveKeyLocked K s node user source w = (k, w1)" by fastforce
  show ?case
  proof (cases k)
    case (Inl e)
    with Cons.prems r show ?thesis by auto
  next
    case (Inr key)
    obtain s1 c1 where m: "rememberKey source (ui_Id user) key (s, ch) = (s1, c1)" by fastforce
    show ?thesis
    proof (cases "key = ''''")
      case True
      with Cons.prems r Inr have "buildLoop K node source users out ch s w1 = (r, s', w')" by simp
      then show ?thesis by (rule Cons.IH) (fact Cons.prems)+
    next
      case False
      with Cons.prems r Inr m have
        l: "buildLoop K node source users (out @ [keyEntry user key]) c1 s1 w1 = (r, s', w')" by simp
      note lim = remember_limit [OF r [unfolded Inr] False Cons.prems(2) m Cons.prems(3)]
      show ?thesis using Cons.IH [OF l Cons.prems(2) conjunct1 [OF lim]] lim rememberKey_cfg [OF m]
        by (auto simp: max_def split: if_splits)
    qed
  qed
qed simp

lemma BuildMappings_cases:
  assumes "BuildMappings K node users s w = (r, s', w')"
    and "usesFile (normalizedClientKeySource (rc_ClientKeySource (ks_cfg s)))"
  obtains (load) e where "loadFileLocked K w s = (Some e, s')" "r = Inl e" "w' = w"
  | (loop) s1 k w2 where "loadFileLocked K w s = (None, s1)"
      "buildLoop K node (normalizedClientKeySource (rc_ClientKeySource (ks_cfg s))) users [] False s1 w
        = (k, s', w2)"
      "w' = w2 \<or> (\<exists>e. saveFileLocked K s' w2 = (e, w'))"
  using assms
  by (auto simp: BuildMappings_def Let_def split: prod.splits sum.splits option.splits if_splits)

text \<open>
  C24. The key file stays bounded: whatever the result, the keys in memory (and so those
  saved) are no more than the configured limit, or than the file already held when read.
\<close>

theorem BuildMappings_limit:
  assumes "BuildMappings K node users s w = (r, s', w')"
    and "usesFile (normalizedClientKeySource (rc_ClientKeySource (ks_cfg s)))"
    and "finite (dom (fileUsers (snd (loadFileLocked K w s))))"
  shows "finite (dom (fileUsers s')) \<and> int (card (dom (fileUsers s'))) \<le>
    max (rc_MaxClientKeyFileUsers (ks_cfg s)) (int (card (dom (fileUsers (snd (loadFileLocked K w s))))))"
  using assms(1,2)
proof (cases rule: BuildMappings_cases)
  case load
  then show ?thesis using assms(3) by simp
next
  case (loop s1 k w2)
  from buildLoop_limit [OF loop(2) assms(2)] loadFile_cfg [OF loop(1)] assms(3) loop(1)
  show ?thesis by simp
qed

lemma saveFile_atomic:
  assumes "saveFileLocked K s w = (e, w')"
  shows "(os_files w' (rc_ClientKeyFile (ks_cfg s)) = os_files w (rc_ClientKeyFile (ks_cfg s)) \<or>
      os_files w' (rc_ClientKeyFile (ks_cfg s)) = Some (ke_encode K (fileUsers s) @ [CHR 0x0A])) \<and>
    (\<forall>q. q \<noteq> rc_ClientKeyFile (ks_cfg s) \<longrightarrow> q \<noteq> tmpPath (rc_ClientKeyFile (ks_cfg s)) \<longrightarrow>
      os_files w' q = os_files w q)"
  using assms replaceFile_ok replaceFile_err unfolding saveFileLocked_def
  by (cases e) (metis tmpPath_neq(1))+

text \<open>
  C22. A write that fails half way never damages the key file: after \<open>BuildMappings\<close>, whatever
  faults the disk had, the file holds what it held before or the complete encoding of the
  keys in memory, and no file but it and its temporary has changed.
\<close>

theorem key_file_atomic:
  assumes "BuildMappings K node users s w = (r, s', w')"
    and "usesFile (normalizedClientKeySource (rc_ClientKeySource (ks_cfg s)))"
  shows "(os_files w' (rc_ClientKeyFile (ks_cfg s)) = os_files w (rc_ClientKeyFile (ks_cfg s)) \<or>
      os_files w' (rc_ClientKeyFile (ks_cfg s)) = Some (ke_encode K (fileUsers s') @ [CHR 0x0A])) \<and>
    (\<forall>q. q \<noteq> rc_ClientKeyFile (ks_cfg s) \<longrightarrow> q \<noteq> tmpPath (rc_ClientKeyFile (ks_cfg s)) \<longrightarrow>
      os_files w' q = os_files w q)"
  using assms
proof (cases rule: BuildMappings_cases)
  case load
  then show ?thesis by simp
next
  case (loop s1 k w2)
  have "ks_cfg s' = ks_cfg s" and f: "os_files w2 = os_files w"
    using buildLoop_cfg [OF loop(2)] loadFile_cfg [OF loop(1)] by auto
  then show ?thesis using loop(3) saveFile_atomic [of K s' w2] by auto
qed

lemma buildLoop_loaded:
  "buildLoop K node source users out ch s w = (r, s', w') \<Longrightarrow> ks_Users s \<noteq> None \<Longrightarrow> ks_Users s' \<noteq> None"
proof (induction K node source users out ch s w rule: buildLoop.induct)
  case (2 K node source user users out changed s w)
  then show ?case
    by (fastforce simp: rememberKey_def split: prod.splits sum.splits if_splits)
qed simp

lemma ReadFile_draws: "w' = w\<lparr>os_draws := n\<rparr> \<Longrightarrow> ReadFile p w' = ReadFile p w"
  by (simp add: ReadFile_def)

text \<open>
  C21. Generated keys survive a restart. When the auto source has built the mappings of a
  user list without an error, a new process with the same configuration, reading the key
  file that build left, returns the same mappings, generates nothing and writes nothing.
  It rests on the key file's JSON form giving back the map that was saved.
\<close>

theorem auto_keys_survive_restart:
  assumes b: "BuildMappings K node users (NewClientKeyStore cfg) w = (Inr out, s', w')"
    and a: "normalizedClientKeySource (rc_ClientKeySource cfg) = ''auto''"
    and K: "splits_trimmed K" and v: "valid_ids users"
    and nb: "no_blank_keys (snd (loadFileLocked K w (NewClientKeyStore cfg)))"
    and dec: "ke_decode K (ke_encode K (fileUsers s') @ [CHR 0x0A]) = KeyJSON (Some (fileUsers s'))"
    and enc: "TrimSpace (ke_encode K (fileUsers s') @ [CHR 0x0A]) \<noteq> ''''"
  shows "BuildMappings K node users (NewClientKeyStore cfg) w' = (Inr out, s', w')"
proof -
  let ?s = "NewClientKeyStore cfg" and ?p = "rc_ClientKeyFile cfg"
  have cfg [simp]: "ks_cfg ?s = cfg" "ks_Users ?s = None" by (simp_all add: NewClientKeyStore_def)
  obtain s1 es ch w2 where ld: "loadFileLocked K w ?s = (None, s1)"
    and lp: "buildLoop K node ''auto'' users [] False s1 w = (Inr (es, ch), s', w2)"
    and out: "out = sort_slice uk_UID es"
    and sv: "if ch then saveFileLocked K s' w2 = (None, w') else w' = w2"
    by (rule BuildMappings_InrD [OF b]) (simp add: a usesFile_def)
  have nb1: "no_blank_keys s1" using nb ld by simp
  note L = auto_loop [OF lp K nb1 v]
  have c1: "ks_cfg s1 = cfg" "ks_Users s1 \<noteq> None" using loadFile_cfg [OF ld] by auto
  have c': "ks_cfg s' = cfg" using buildLoop_cfg [OF lp] c1 by simp
  have U': "ks_Users s' = Some (fileUsers s')"
    using buildLoop_loaded [OF lp] c1(2) by (auto simp: fileUsers_def)
  have reload: "loadFileLocked K w' ?s = (None, s')"
  proof (cases ch)
    case True
    with sv have "replaceFile ?p (ke_encode K (fileUsers s') @ [CHR 0x0A]) w2 = (None, w')"
      by (simp add: saveFileLocked_def c')
    then have "os_files w' ?p = Some (ke_encode K (fileUsers s') @ [CHR 0x0A])"
      and "os_unreadable w' = os_unreadable w2" by (rule replaceFile_ok replaceFile_frame)+
    moreover have "os_unreadable w2 = os_unreadable w" using L by (metis os.select_convs(2) os.surjective os.update_convs(7))
    moreover have "\<not> os_unreadable w ?p" using ld by (auto simp: loadFileLocked_def ReadFile_def)
    ultimately have "ReadFile ?p w' = Inr (ke_encode K (fileUsers s') @ [CHR 0x0A])"
      by (simp add: ReadFile_def)
    then show ?thesis using dec enc c' U'
      by (simp add: loadFileLocked_def NewClientKeyStore_def)
  next
    case False
    then have s: "s' = s1" using L by auto
    have "ReadFile ?p w' = ReadFile ?p w" using sv False L by (metis ReadFile_draws)
    then show ?thesis using ld s by (simp add: loadFileLocked_def)
  qed
  from auto_rerun [of s' users K node "[]" False w'] L
  have "buildLoop K node ''auto'' users [] False s' w' = (Inr (es, False), s', w')" by simp
  then show ?thesis using reload a by (simp add: BuildMappings_def usesFile_def out)
qed

section \<open>A sample environment\<close>

text \<open>
  A disk without faults, a key file for the user with id 1, and a split that draws \<open>k0\<close>,
  then \<open>k1\<close>.
\<close>

definition emptyOS :: os where
  "emptyOS = \<lparr>os_files = Map.empty, os_unreadable = (\<lambda>_. False), os_nodir = (\<lambda>_. False),
     os_nocreate = (\<lambda>_. False), os_space = (\<lambda>_. None), os_norename = (\<lambda>_. False), os_draws = 0\<rparr>"

definition sampleEnv :: "unit keyenv" where
  "sampleEnv = \<lparr>ke_encode = (\<lambda>m. ''=#'' @ zero_of '''' m ''1''),
     ke_decode = (\<lambda>b. KeyJSON (Some [''1'' \<mapsto> drop 2 (butlast b)])),
     ke_ParsePrivateScalar = (\<lambda>h. if h = '''' then None else Some ()),
     ke_SplitPrivateKey = (\<lambda>n _. Some (if n = 0 then ''k0'' else ''k1''))\<rparr>"

definition autoConfig :: "int \<Rightarrow> RuntimeConfig" where
  "autoConfig limit = (cf_RuntimeConfig newConf)
     \<lparr>rc_ClientKeySource := ''auto'', rc_ClientKeyFile := ''keys'', rc_MaxClientKeyFileUsers := limit\<rparr>"

definition sampleStore :: "(string \<rightharpoonup> string) option \<Rightarrow> ClientKeyStore" where
  "sampleStore m = \<lparr>ks_cfg = autoConfig 1, ks_Users = m\<rparr>"

definition savedOS :: os where
  "savedOS = emptyOS\<lparr>os_draws := 1, os_files := [''keys'' \<mapsto> ''=#k0'' @ [CHR 0x0A]]\<rparr>"

lemma plain_samples [simp]: "trimmed ''auto''" "trimmed ''k0''" "trimmed ''k1''" "trimmed ''''"
  by (rule trimmed_plain, simp add: plain_char_def)+

lemma Itoa_1 [simp]: "Itoa 1 = ''1''"
  by code_simp

lemma ToLower_auto [simp]: "ToLower ''auto'' = ''auto''"
  by code_simp

lemma autoConfig_simps [simp]:
  "normalizedClientKeySource (rc_ClientKeySource (autoConfig n)) = ''auto''"
  "rc_ClientKeyFile (autoConfig n) = ''keys''" "rc_MaxClientKeyFileUsers (autoConfig n) = n"
  by (simp_all add: normalizedClientKeySource_def autoConfig_def)

lemmas sample_run_simps = sampleStore_def BuildMappings_def loadFileLocked_def ReadFile_def emptyOS_def
  resolveKeyLocked_def rememberKey_def usesFile_def storedKey_def fileUsers_def sample_private_key
  sampleEnv_def saveFileLocked_def replaceFile_def MkdirFor_def WriteFile_def Rename_def keyEntry_def
  tmpPath_def zero_of_def sort_slice_def savedOS_def

lemma sample_build:
  "BuildMappings sampleEnv sample_node [sampleUser 1 ''a''] (sampleStore None) emptyOS =
     (Inr [keyEntry (sampleUser 1 ''a'') ''k0''], sampleStore (Some [''1'' \<mapsto> ''k0'']), savedOS)"
  by (simp add: sample_run_simps Let_def fun_upd_twist)

theorem BuildMappings_sound_witness:
  "sorted (map uk_UID [keyEntry (sampleUser 1 ''a'') ''k0''])"
  using BuildMappings_sound [OF sample_build] by blast

theorem BuildMappings_limit_witness:
  "card (dom [''1'' \<mapsto> ''k0'']) \<le> 1"
  using BuildMappings_limit [OF sample_build]
  by (simp add: usesFile_def sampleStore_def loadFileLocked_def ReadFile_def emptyOS_def fileUsers_def)

theorem key_file_atomic_witness:
  "os_files savedOS ''keys'' = Some (ke_encode sampleEnv [''1'' \<mapsto> ''k0''] @ [CHR 0x0A])"
  using key_file_atomic [OF sample_build]
  by (simp add: usesFile_def sampleStore_def emptyOS_def fileUsers_def savedOS_def)

theorem auto_keys_survive_restart_witness:
  "BuildMappings sampleEnv sample_node [sampleUser 1 ''a''] (NewClientKeyStore (autoConfig 1)) savedOS =
     (Inr [keyEntry (sampleUser 1 ''a'') ''k0''], sampleStore (Some [''1'' \<mapsto> ''k0'']), savedOS)"
proof -
  have new: "NewClientKeyStore (autoConfig 1) = sampleStore None"
    by (simp add: NewClientKeyStore_def sampleStore_def)
  have "trimmed ''=#k0''" by (rule trimmed_plain) (simp add: plain_char_def)
  then have body: "TrimSpace (''=#k0'' @ [CHR 0x0A]) \<noteq> ''''" by (simp add: TrimSpace_def) code_simp
  show ?thesis
    by (rule auto_keys_survive_restart [where cfg = "autoConfig 1", OF sample_build [folded new]])
      (use body in \<open>simp_all add: new splits_trimmed_def valid_ids_def in64_def no_blank_keys_def
        sampleStore_def loadFileLocked_def ReadFile_def emptyOS_def fileUsers_def sampleEnv_def zero_of_def\<close>)
qed

section \<open>Where the key file loses keys\<close>

text \<open>
  C30. A failed read of the key file is not tried again: the map stays non-nil, so the next
  build starts from no keys, and when it has generated any it replaces the whole file by
  them, losing the stored key of every user that is not in that build.
\<close>

theorem failed_load_discards_file:
  assumes "normalizedClientKeySource (rc_ClientKeySource (ks_cfg s)) = ''auto''"
    and "ks_Users s = None" and "os_unreadable w (rc_ClientKeyFile (ks_cfg s))"
    and "BuildMappings K node users (s\<lparr>ks_Users := Some Map.empty\<rparr>) w1 = (Inr out, s2, w2)"
    and "out \<noteq> []" and "splits_trimmed K" and "valid_ids users"
  shows "BuildMappings K node users' s w = (Inl ReadKeyFile, s\<lparr>ks_Users := Some Map.empty\<rparr>, w) \<and>
    os_files w2 (rc_ClientKeyFile (ks_cfg s)) = Some (ke_encode K (fileUsers s2) @ [CHR 0x0A]) \<and>
    dom (fileUsers s2) \<subseteq> (\<lambda>u. Itoa (ui_Id u)) ` set users"
proof -
  let ?s1 = "s\<lparr>ks_Users := Some Map.empty\<rparr>"
  have nb: "no_blank_keys ?s1" by (simp add: no_blank_keys_def fileUsers_def)
  obtain es ch w' where
    lp: "buildLoop K node ''auto'' users [] False ?s1 w1 = (Inr (es, ch), s2, w')"
    and out: "out = sort_slice uk_UID es"
    and sv: "if ch then saveFileLocked K s2 w' = (None, w2) else w2 = w'"
    by (rule BuildMappings_InrD [OF assms(4)]) (use assms(1) in \<open>auto simp: usesFile_def\<close>)
  note L = auto_loop [OF lp assms(6) nb assms(7)]
  have "users \<noteq> []" using assms(5) L out by (auto simp: stored_entries_def sort_slice_def)
  then obtain u where u: "u \<in> set users" by (cases users) auto
  have ch: "ch"
  proof (rule ccontr)
    assume "\<not> ch"
    then have "s2 = ?s1" using L by auto
    then show False using L u by (auto simp: all_stored_def storedKey_def fileUsers_def zero_of_def)
  qed
  have "ks_cfg s2 = ks_cfg s" using buildLoop_cfg [OF lp] by simp
  then have "replaceFile (rc_ClientKeyFile (ks_cfg s)) (ke_encode K (fileUsers s2) @ [CHR 0x0A]) w' = (None, w2)"
    using sv ch by (simp add: saveFileLocked_def)
  from replaceFile_ok(1) [OF this] show ?thesis
    using buildLoop_dom [OF lp] assms(1-3)
    by (simp add: BuildMappings_def usesFile_def loadFileLocked_def ReadFile_def fileUsers_def comp_def)
qed

theorem failed_load_discards_file_witness:
  "fst (BuildMappings sampleEnv sample_node [] (sampleStore None)
     (emptyOS\<lparr>os_unreadable := (\<lambda>_. True), os_files := [''keys'' \<mapsto> ''=#old'']\<rparr>)) = Inl ReadKeyFile \<and>
   os_files (snd (snd (BuildMappings sampleEnv sample_node [sampleUser 1 ''a''] (sampleStore (Some Map.empty))
     (emptyOS\<lparr>os_files := [''keys'' \<mapsto> ''=#old'']\<rparr>)))) ''keys'' = Some (''=#k0'' @ [CHR 0x0A])"
proof -
  have s: "sampleStore None\<lparr>ks_Users := Some Map.empty\<rparr> = sampleStore (Some Map.empty)"
    by (simp add: sampleStore_def)
  have b: "BuildMappings sampleEnv sample_node [sampleUser 1 ''a''] (sampleStore None\<lparr>ks_Users := Some Map.empty\<rparr>)
      (emptyOS\<lparr>os_files := [''keys'' \<mapsto> ''=#old'']\<rparr>) =
    (Inr [keyEntry (sampleUser 1 ''a'') ''k0''], sampleStore (Some [''1'' \<mapsto> ''k0'']), savedOS)"
    by (simp add: sample_run_simps Let_def fun_upd_twist)
  from failed_load_discards_file [OF _ _ _ b, of "emptyOS\<lparr>os_unreadable := (\<lambda>_. True), os_files := [''keys'' \<mapsto> ''=#old'']\<rparr>" "[]"]
  show ?thesis using b s
    by (simp add: splits_trimmed_def valid_ids_def in64_def sampleStore_def sampleEnv_def zero_of_def fileUsers_def)
qed



end
