(* ===== verification/Sudoku_Config.thy ===== *)
theory Sudoku_Config
  imports Conf Panel_Node
begin

text \<open>
  \<open>internal/runtime/config.go\<close>: the Sudoku server configuration built from a panel node and
  the runtime configuration, and the address the server listens on. The configuration type,
  its \<open>Finalize\<close>, its JSON form, the key recovery and the table builder belong to the Sudoku
  module, outside the repository: the record below has the fields the code writes and
  reads, and the functions are arguments, bundled in \<open>cfgenv\<close>.
\<close>

record HTTPMaskConfig =
  mc_Disable :: bool
  mc_Mode :: string
  mc_TLS :: bool
  mc_Host :: string
  mc_PathRoot :: string
  mc_Multiplex :: string

record Config =
  sc_Mode :: string
  sc_Transport :: string
  sc_LocalPort :: int
  sc_FallbackAddr :: string
  sc_Key :: string
  sc_AEAD :: string
  sc_SuspiciousAction :: string
  sc_PaddingMin :: int
  sc_PaddingMax :: int
  sc_ASCII :: string
  sc_CustomTable :: string
  sc_CustomTables :: "string list option"
  sc_EnablePureDownlink :: bool
  sc_HTTPMask :: HTTPMaskConfig

record ('point, 'table) cfgenv =
  ce_RecoverPublicKey :: "string \<Rightarrow> 'point option"
  ce_EncodePoint :: "'point \<Rightarrow> string"
  ce_Finalize :: "Config \<Rightarrow> Config option"
  ce_MarshalConfig :: "Config \<Rightarrow> string option"
  ce_BuildTables :: "Config \<Rightarrow> 'table list option"

datatype config_error = RecoverKeyFailed | MissingPublicKey | FinalizeFailed | MarshalFailed

definition deref_or :: "'a \<Rightarrow> 'a option \<Rightarrow> 'a" where
  "deref_or d p = (case p of None \<Rightarrow> d | Some v \<Rightarrow> v)"

text \<open>The public key of the configuration: the panel's, else recovered from the private key.\<close>

definition configKey :: "('point, 'table) cfgenv \<Rightarrow> SudokuSettings \<Rightarrow> config_error + string" where
  "configKey E settings =
     (let key = TrimSpace (st_MasterPublicKey settings) in
      if key = '''' \<and> TrimSpace (st_MasterPrivateKey settings) \<noteq> ''''
      then (case ce_RecoverPublicKey E (st_MasterPrivateKey settings) of
              None \<Rightarrow> Inl RecoverKeyFailed
            | Some pub \<Rightarrow>
                if ce_EncodePoint E pub = '''' then Inl MissingPublicKey else Inr (ce_EncodePoint E pub))
      else if key = '''' then Inl MissingPublicKey
      else Inr key)"

definition maskConfig :: "SudokuSettings \<Rightarrow> HTTPMaskConfig" where
  "maskConfig settings =
     (let m = st_HTTPMask settings in
      \<lparr>mc_Disable = deref_or False (hm_Disable m),
       mc_Mode = firstNonEmpty [hm_Mode m, ''legacy''],
       mc_TLS = deref_or False (hm_TLS m),
       mc_Host = firstNonEmpty [hm_MaskHost m, hm_Host m],
       mc_PathRoot = hm_PathRoot m,
       mc_Multiplex = firstNonEmpty [hm_Multiplex m, st_Multiplex settings]\<rparr>)"

text \<open>The configuration as the code fills it, before \<open>Finalize\<close>.\<close>

definition draftConfig :: "string \<Rightarrow> NodeInfo \<Rightarrow> RuntimeConfig \<Rightarrow> Config" where
  "draftConfig key node cfg =
     (let settings = ni_EncryptionSettings node;
          fallback = firstNonEmpty [st_FallbackAddress settings, rc_FallbackAddress cfg]
      in \<lparr>sc_Mode = ''server'', sc_Transport = ''tcp'', sc_LocalPort = ni_ServerPort node,
          sc_FallbackAddr = fallback, sc_Key = key,
          sc_AEAD = firstNonEmpty [st_AEADMethod settings, st_AEAD settings, ''chacha20-poly1305''],
          sc_SuspiciousAction =
            (if fallback = '''' then ''silent'' else firstNonEmpty [st_SuspiciousAction settings, ''fallback'']),
          sc_PaddingMin = firstNonZero [st_PaddingMin settings, 5],
          sc_PaddingMax = firstNonZero [st_PaddingMax settings, 15],
          sc_ASCII = firstNonEmpty [st_TableType settings, st_ASCII settings, ''prefer_entropy''],
          sc_CustomTable = st_CustomTable settings,
          sc_CustomTables =
            (case st_CustomTables settings of Some (t # ts) \<Rightarrow> Some (t # ts) | _ \<Rightarrow> None),
          sc_EnablePureDownlink = deref_or True (st_EnablePureDownlink settings),
          sc_HTTPMask = maskConfig settings\<rparr>)"

definition buildSudokuConfig ::
  "('point, 'table) cfgenv \<Rightarrow> NodeInfo \<Rightarrow> RuntimeConfig \<Rightarrow> config_error + Config"
where
  "buildSudokuConfig E node cfg =
     (case configKey E (ni_EncryptionSettings node) of
        Inl e \<Rightarrow> Inl e
      | Inr key \<Rightarrow>
          (case ce_Finalize E (draftConfig key node cfg) of
             None \<Rightarrow> Inl FinalizeFailed
           | Some sc \<Rightarrow> Inr sc))"

definition buildExternalConfigJSON ::
  "('point, 'table) cfgenv \<Rightarrow> NodeInfo \<Rightarrow> RuntimeConfig \<Rightarrow> config_error + string"
where
  "buildExternalConfigJSON E node cfg =
     (case buildSudokuConfig E node cfg of
        Inl e \<Rightarrow> Inl e
      | Inr sc \<Rightarrow> (case ce_MarshalConfig E sc of None \<Rightarrow> Inl MarshalFailed | Some b \<Rightarrow> Inr b))"

definition listenAddress :: "NodeInfo \<Rightarrow> string" where
  "listenAddress node =
     JoinHostPort (if ni_ListenIP node = '''' then ''0.0.0.0'' else ni_ListenIP node) (Itoa (ni_ServerPort node))"

section \<open>What the configuration is\<close>

lemma firstNonEmpty_last: "d \<in> set vs \<Longrightarrow> TrimSpace d \<noteq> '''' \<Longrightarrow> firstNonEmpty vs \<noteq> ''''"
  by (induction vs) (auto simp: Let_def)

lemma default_words [simp]: "trimmed ''legacy''" "trimmed ''chacha20-poly1305''" "trimmed ''prefer_entropy''"
  "trimmed ''fallback'' "
  by (rule trimmed_plain, simp add: plain_char_def)+

lemma configKey_nonempty: "configKey E st = Inr key \<Longrightarrow> key \<noteq> ''''"
  by (auto simp: configKey_def Let_def split: if_splits option.splits)

lemma buildSudokuConfig_InrD:
  assumes "buildSudokuConfig E node cfg = Inr sc"
  obtains key where "configKey E (ni_EncryptionSettings node) = Inr key" "key \<noteq> ''''"
    "ce_Finalize E (draftConfig key node cfg) = Some sc"
  using assms configKey_nonempty by (auto simp: buildSudokuConfig_def split: sum.splits option.splits)

text \<open>
  The configuration handed to \<open>Finalize\<close> is complete for every node: it carries a key, a
  cipher, a table type and a mask mode; the suspicious action is \<open>silent\<close> whenever there is
  no fallback address, so \<open>fallback\<close> is only ever asked for with an address to fall back to;
  zero paddings become 5 and 15; and an absent pure-downlink switch means on.
\<close>

theorem draft_complete:
  assumes "buildSudokuConfig E node cfg = Inr sc"
  shows "\<exists>key. let d = draftConfig key node cfg in
    ce_Finalize E d = Some sc \<and> sc_Key d \<noteq> '''' \<and> sc_AEAD d \<noteq> '''' \<and> sc_ASCII d \<noteq> '''' \<and>
    mc_Mode (sc_HTTPMask d) \<noteq> '''' \<and> sc_SuspiciousAction d \<noteq> '''' \<and>
    (sc_SuspiciousAction d = ''fallback'' \<longrightarrow> sc_FallbackAddr d \<noteq> '''') \<and>
    (sc_FallbackAddr d = '''' \<longleftrightarrow> TrimSpace (st_FallbackAddress (ni_EncryptionSettings node)) = '''' \<and>
       TrimSpace (rc_FallbackAddress cfg) = '''') \<and>
    sc_PaddingMin d \<noteq> 0 \<and> sc_PaddingMax d \<noteq> 0 \<and>
    (sc_EnablePureDownlink d \<longleftrightarrow> st_EnablePureDownlink (ni_EncryptionSettings node) \<noteq> Some False)"
proof -
  obtain key where key: "key \<noteq> ''''" "ce_Finalize E (draftConfig key node cfg) = Some sc"
    using assms by (elim buildSudokuConfig_InrD)
  have ne: "firstNonEmpty [a, ''fallback''] \<noteq> ''''" "firstNonEmpty [a, ''legacy''] \<noteq> ''''"
    "firstNonEmpty [a, b, ''chacha20-poly1305''] \<noteq> ''''" "firstNonEmpty [a, b, ''prefer_entropy''] \<noteq> ''''" for a b
    by (simp_all add: Let_def)
  show ?thesis
    using key ne
    by (intro exI [of _ key]) (auto simp: draftConfig_def maskConfig_def Let_def deref_or_def split: option.splits)
qed

definition plainEnv :: "(string, unit) cfgenv" where
  "plainEnv = \<lparr>ce_RecoverPublicKey = (\<lambda>k. Some (''pub-'' @ k)), ce_EncodePoint = id, ce_Finalize = Some,
     ce_MarshalConfig = (\<lambda>c. Some (sc_Key c @ sc_FallbackAddr c)), ce_BuildTables = (\<lambda>_. Some [()])\<rparr>"

lemma sample_config: "buildSudokuConfig plainEnv sample_node cfg =
    Inr (draftConfig (''pub-ab'') sample_node cfg)"
proof -
  have "trimmed ''ab''" by (rule trimmed_plain) (simp add: plain_char_def)
  moreover have "st_MasterPublicKey (ni_EncryptionSettings sample_node) = ''''"
    by (simp add: sample_node_def resolveSettings_def Let_def sample_raw_def)
  ultimately show ?thesis
    by (simp add: buildSudokuConfig_def configKey_def sample_private_key plainEnv_def)
qed

theorem draft_complete_witness:
  "\<exists>key. sc_Key (draftConfig key sample_node (cf_RuntimeConfig newConf)) \<noteq> ''''"
  using draft_complete [OF sample_config [of "cf_RuntimeConfig newConf"]] by (auto simp: Let_def)

text \<open>
  The server listens on the node's address and port, every interface when the panel gives
  none: splitting the listen address gives back both, for IPv6 addresses too.
\<close>

theorem listenAddress_splits:
  assumes "plain_host (ni_ListenIP node)"
  shows "SplitHostPort (listenAddress node) =
    Some (if ni_ListenIP node = '''' then ''0.0.0.0'' else ni_ListenIP node, Itoa (ni_ServerPort node))"
proof -
  have "plain_host ''0.0.0.0''" by (simp add: plain_host_def)
  then show ?thesis using assms host_port.dcd_enc [of "(_, _)"] by (simp add: listenAddress_def)
qed

theorem listenAddress_splits_witness:
  "SplitHostPort (listenAddress (sample_node\<lparr>ni_ListenIP := ''::1''\<rparr>)) = Some (''::1'', Itoa 18080)"
  using listenAddress_splits [of "sample_node\<lparr>ni_ListenIP := ''::1''\<rparr>"]
  by (simp add: plain_host_def sample_node_def)

end
