(* ===== verification/Counting.thy ===== *)
theory Counting
  imports Go_Prelude
begin

text \<open>
  \<open>internal/runtime/counting.go\<close>: a user's traffic counter, the connection that feeds it, and
  the online state of a user. The counter's mutex makes each operation atomic, so an
  operation is a function of the counter. Times are nanoseconds.
\<close>

record trafficCounter =
  tc_uid :: int
  tc_uuid :: string
  tc_up :: int64
  tc_down :: int64

record onlineState =
  on_seenAt :: int64
  on_ip :: string

definition addUpload :: "int64 \<Rightarrow> trafficCounter \<Rightarrow> trafficCounter" where
  "addUpload n c = (if n \<le> 0 then c else c\<lparr>tc_up := wrap64 (tc_up c + n)\<rparr>)"

definition addDownload :: "int64 \<Rightarrow> trafficCounter \<Rightarrow> trafficCounter" where
  "addDownload n c = (if n \<le> 0 then c else c\<lparr>tc_down := wrap64 (tc_down c + n)\<rparr>)"

definition snapshot :: "trafficCounter \<Rightarrow> int64 \<times> int64" where
  "snapshot c = (tc_up c, tc_down c)"

text \<open>One side of \<open>subtract\<close>: what is left of a count once \<open>n\<close> of it is confirmed.\<close>

definition settle :: "int64 \<Rightarrow> int64 \<Rightarrow> int64" where
  "settle n have = (if n \<ge> have then 0 else wrap64 (have - n))"

definition subtract :: "int64 \<Rightarrow> int64 \<Rightarrow> trafficCounter \<Rightarrow> trafficCounter" where
  "subtract up down c = c\<lparr>tc_up := settle up (tc_up c), tc_down := settle down (tc_down c)\<rparr>"

text \<open>
  \<open>countingConn\<close>: what the wrapped connection returned goes to the caller unchanged, and its
  byte count to the counter, if there is one.
\<close>

definition conn_Read :: "int \<times> 'e option \<Rightarrow> trafficCounter option \<Rightarrow> (int \<times> 'e option) \<times> trafficCounter option" where
  "conn_Read res c =
     (res, case c of None \<Rightarrow> None | Some k \<Rightarrow> Some (if fst res > 0 then addUpload (fst res) k else k))"

definition conn_Write :: "int \<times> 'e option \<Rightarrow> trafficCounter option \<Rightarrow> (int \<times> 'e option) \<times> trafficCounter option" where
  "conn_Write res c =
     (res, case c of None \<Rightarrow> None | Some k \<Rightarrow> Some (if fst res > 0 then addDownload (fst res) k else k))"

section \<open>Counters stay counts\<close>

definition is_count :: "int \<Rightarrow> bool" where
  "is_count n \<longleftrightarrow> 0 \<le> n \<and> n < 9223372036854775808"

definition counter_ok :: "trafficCounter \<Rightarrow> bool" where
  "counter_ok c \<longleftrightarrow> is_count (tc_up c) \<and> is_count (tc_down c)"

lemma is_count_0 [simp]: "is_count 0"
  by (simp add: is_count_def)

lemma is_count_in64 [intro]: "is_count n \<Longrightarrow> in64 n"
  by (simp add: is_count_def in64_def)

lemma wrap64_count [simp, wrap64_simps]: "is_count n \<Longrightarrow> wrap64 n = n"
  by (simp add: is_count_in64)

lemma settle_count: "is_count n \<Longrightarrow> is_count h \<Longrightarrow> settle n h = max 0 (h - n)"
  by (simp add: settle_def is_count_def in64_nonneg_lt max_def)

lemma is_count_settle: "is_count n \<Longrightarrow> is_count h \<Longrightarrow> is_count (settle n h)"
  by (auto simp: settle_count is_count_def)

lemma settle_self [simp]: "settle h h = 0"
  by (simp add: settle_def)

text \<open>What was counted after a snapshot of \<open>n\<close> is what is left when \<open>n\<close> is confirmed.\<close>

lemma settle_later: "is_count n \<Longrightarrow> is_count (n + k) \<Longrightarrow> 0 \<le> k \<Longrightarrow> settle n (n + k) = k"
  by (simp add: settle_count)

lemma addUpload_up [simp]: "0 \<le> n \<Longrightarrow> is_count (tc_up c + n) \<Longrightarrow> tc_up (addUpload n c) = tc_up c + n"
  by (auto simp: addUpload_def)

lemma addDownload_down [simp]: "0 \<le> n \<Longrightarrow> is_count (tc_down c + n) \<Longrightarrow> tc_down (addDownload n c) = tc_down c + n"
  by (auto simp: addDownload_def)

lemma add_other_side [simp]:
  "tc_down (addUpload n c) = tc_down c" "tc_up (addDownload n c) = tc_up c"
  "tc_uid (addUpload n c) = tc_uid c" "tc_uid (addDownload n c) = tc_uid c"
  "tc_uuid (addUpload n c) = tc_uuid c" "tc_uuid (addDownload n c) = tc_uuid c"
  by (simp_all add: addUpload_def addDownload_def)

lemma subtract_simps [simp]:
  "tc_up (subtract u d c) = settle u (tc_up c)" "tc_down (subtract u d c) = settle d (tc_down c)"
  "tc_uid (subtract u d c) = tc_uid c" "tc_uuid (subtract u d c) = tc_uuid c"
  by (simp_all add: subtract_def)

lemma conn_Read_result [simp]: "fst (conn_Read res c) = res"
  and conn_Write_result [simp]: "fst (conn_Write res c) = res"
  by (simp_all add: conn_Read_def conn_Write_def)

end
