(* ===== verification/Server_Interface.thy ===== *)
theory Server_Interface
  imports Counting Panel_Node
begin

text \<open>
  What the controller relies on in a \<open>runtime.Server\<close> (\<open>internal/runtime/server.go\<close>): the
  traffic a server has pending is read by \<open>GetUserTrafficSlice\<close> and taken off by
  \<open>ConfirmUserTraffic\<close> once the panel has it, while connections keep counting and users
  change. The locale states that contract; the client lemmas run any sequence of such steps
  and balance the books. Both engines interpret it.
\<close>

section \<open>The users a server knows\<close>

text \<open>
  Both engines file users under their UUID: the loop over added users skips blank UUIDs and
  overwrites, the loop over deleted users forgets.
\<close>

definition enroll :: "UserInfo list \<Rightarrow> (string \<rightharpoonup> UserInfo) \<Rightarrow> string \<rightharpoonup> UserInfo" where
  "enroll users m = fold (\<lambda>user m. if ui_Uuid user = '''' then m else m(ui_Uuid user \<mapsto> user)) users m"

definition expel :: "UserInfo list \<Rightarrow> (string \<rightharpoonup> 'v) \<Rightarrow> string \<rightharpoonup> 'v" where
  "expel users m = fold (\<lambda>user m. m(ui_Uuid user := None)) users m"

lemma enroll_simps [simp]:
  "enroll [] m = m"
  "enroll (x # xs) m = enroll xs (if ui_Uuid x = '''' then m else m(ui_Uuid x \<mapsto> x))"
  by (simp_all add: enroll_def)

lemma expel_simps [simp]: "expel [] m = m" "expel (x # xs) m = expel xs (m(ui_Uuid x := None))"
  by (simp_all add: expel_def)

lemma enroll_blank [simp]: "enroll xs m [] = m []"
  by (induction xs arbitrary: m) auto

lemma enroll_other: "u \<notin> ui_Uuid ` set xs \<Longrightarrow> enroll xs m u = m u"
  by (induction xs arbitrary: m) auto

lemma enroll_Some: "enroll xs m u = Some x \<Longrightarrow> (x \<in> set xs \<and> ui_Uuid x = u) \<or> m u = Some x"
  by (induction xs arbitrary: m) (fastforce split: if_splits)+

lemma dom_enroll: "dom (enroll xs m) = dom m \<union> (ui_Uuid ` set xs - {[]})"
  by (induction xs arbitrary: m) auto

lemma expel_apply: "expel xs m u = (if u \<in> ui_Uuid ` set xs then None else m u)"
  by (induction xs arbitrary: m) auto

lemma enroll_distinct:
  "distinct (map ui_Uuid xs) \<Longrightarrow> x \<in> set xs \<Longrightarrow> ui_Uuid x \<noteq> '''' \<Longrightarrow> enroll xs m (ui_Uuid x) = Some x"
proof (induction xs arbitrary: m)
  case (Cons y ys)
  then show ?case by (cases "x = y") (auto simp: enroll_other)
qed simp

lemma finite_dom_enroll [simp]: "finite (dom m) \<Longrightarrow> finite (dom (enroll xs m))"
  by (simp add: dom_enroll)

section \<open>Traffic accounts\<close>

datatype side = Up | Down

text \<open>Both sides are enumerable, so a statement about every side computes.\<close>

instantiation side :: enum
begin

definition enum_side :: "side list" where
  "enum_side = [Up, Down]"

definition enum_all_side :: "(side \<Rightarrow> bool) \<Rightarrow> bool" where
  "enum_all_side P \<longleftrightarrow> P Up \<and> P Down"

definition enum_ex_side :: "(side \<Rightarrow> bool) \<Rightarrow> bool" where
  "enum_ex_side P \<longleftrightarrow> P Up \<or> P Down"

instance
proof
  show sides: "UNIV = set (enum_class.enum :: side list)"
    using side.exhaust by (auto simp: enum_side_def)
  show "distinct (enum_class.enum :: side list)" by (simp add: enum_side_def)
  show "enum_class.enum_all P \<longleftrightarrow> Ball UNIV P" for P :: "side \<Rightarrow> bool"
    unfolding sides by (simp add: enum_all_side_def enum_side_def)
  show "enum_class.enum_ex P \<longleftrightarrow> Bex UNIV P" for P :: "side \<Rightarrow> bool"
    unfolding sides by (simp add: enum_ex_side_def enum_side_def)
qed

end

primrec traffic_of :: "side \<Rightarrow> UserTraffic \<Rightarrow> int" where
  "traffic_of Up t = ut_Upload t"
| "traffic_of Down t = ut_Download t"

primrec pick :: "side \<Rightarrow> int \<Rightarrow> int \<Rightarrow> int" where
  "pick Up a b = a"
| "pick Down a b = b"

definition reported :: "side \<Rightarrow> string \<Rightarrow> UserTraffic list \<Rightarrow> int" where
  "reported d u ts = sum_list (map (\<lambda>t. if ut_UUID t = u then traffic_of d t else 0) ts)"

definition proper_traffic :: "UserTraffic \<Rightarrow> bool" where
  "proper_traffic t \<longleftrightarrow> ut_UUID t \<noteq> '''' \<and> is_count (ut_Upload t) \<and> is_count (ut_Download t)"

lemma reported_simps [simp]:
  "reported d u [] = 0"
  "reported d u (t # ts) = (if ut_UUID t = u then traffic_of d t else 0) + reported d u ts"
  by (simp_all add: reported_def)

lemma proper_traffic_nonneg: "proper_traffic t \<Longrightarrow> 0 \<le> traffic_of d t"
  by (cases d) (auto simp: proper_traffic_def is_count_def)

lemma reported_nonneg: "(\<And>t. t \<in> set ts \<Longrightarrow> proper_traffic t) \<Longrightarrow> 0 \<le> reported d u ts"
  by (induction ts) (auto simp: proper_traffic_nonneg)

lemma reported_once:
  "distinct (map ut_UUID ts) \<Longrightarrow> t \<in> set ts \<Longrightarrow> reported d (ut_UUID t) ts = traffic_of d t"
  unfolding reported_def by (rule sum_list_single)

lemma reported_none: "u \<notin> ut_UUID ` set ts \<Longrightarrow> reported d u ts = 0"
  unfolding reported_def by (rule sum_list_none)

text \<open>
  What happens to a server between two looks at it: a source (a connection, an event of a
  user hash) moves bytes, or another operation runs.
\<close>

datatype ('c, 'o) activity = Moved 'c int int | Other 'o

text \<open>
  A round of the controller's report task, as far as the traffic goes: read the slice, let
  activity go on while the panel answers, and confirm what was sent if it said yes. A second
  copy of the books is kept beside the server: what was counted and what was delivered.
\<close>

record 's books =
  bk_server :: 's
  bk_counted :: "side \<Rightarrow> string \<Rightarrow> int"
  bk_delivered :: "side \<Rightarrow> string \<Rightarrow> int"

datatype ('c, 'o) session = Activity "('c, 'o) activity" | Round int "('c, 'o) activity list" bool

primrec act ::
  "('c \<Rightarrow> int \<Rightarrow> int \<Rightarrow> 's \<Rightarrow> 's) \<Rightarrow> ('o \<Rightarrow> 's \<Rightarrow> 's) \<Rightarrow> ('c \<Rightarrow> 's \<Rightarrow> string option) \<Rightarrow>
   ('c, 'o) activity \<Rightarrow> 's books \<Rightarrow> 's books"
where
  "act move other owner (Moved c a b) B =
     B\<lparr>bk_server := move c a b (bk_server B),
       bk_counted := (\<lambda>d u. bk_counted B d u + (if owner c (bk_server B) = Some u then pick d a b else 0))\<rparr>"
| "act move other owner (Other x) B = B\<lparr>bk_server := other x (bk_server B)\<rparr>"

definition report_round ::
  "(int \<Rightarrow> 's \<Rightarrow> UserTraffic list) \<Rightarrow> (UserTraffic list \<Rightarrow> 's \<Rightarrow> 's) \<Rightarrow>
   ('s books \<Rightarrow> 's books) \<Rightarrow> int \<Rightarrow> bool \<Rightarrow> 's books \<Rightarrow> 's books"
where
  "report_round gather confirm meanwhile reportMin accepted B =
     (let ts = gather reportMin (bk_server B); B1 = meanwhile B in
      if ts = [] \<or> \<not> accepted then B1
      else B1\<lparr>bk_server := confirm ts (bk_server B1),
              bk_delivered := (\<lambda>d u. bk_delivered B1 d u + reported d u ts)\<rparr>)"

primrec session_step ::
  "(int \<Rightarrow> 's \<Rightarrow> UserTraffic list) \<Rightarrow> (UserTraffic list \<Rightarrow> 's \<Rightarrow> 's) \<Rightarrow>
   ('c \<Rightarrow> int \<Rightarrow> int \<Rightarrow> 's \<Rightarrow> 's) \<Rightarrow> ('o \<Rightarrow> 's \<Rightarrow> 's) \<Rightarrow> ('c \<Rightarrow> 's \<Rightarrow> string option) \<Rightarrow>
   ('c, 'o) session \<Rightarrow> 's books \<Rightarrow> 's books"
where
  "session_step gather confirm move other owner (Activity a) B = act move other owner a B"
| "session_step gather confirm move other owner (Round m as ok) B =
     report_round gather confirm (fold (act move other owner) as) m ok B"

text \<open>Bytes are positive and few enough for the 64-bit counters.\<close>

definition volume :: "side \<Rightarrow> ('c, 'o) activity \<Rightarrow> int" where
  "volume d a = (case a of Moved c x y \<Rightarrow> pick d x y | Other _ \<Rightarrow> 0)"

definition no_negative :: "('c, 'o) activity \<Rightarrow> bool" where
  "no_negative a \<longleftrightarrow> 0 \<le> volume Up a \<and> 0 \<le> volume Down a"

fun activities :: "('c, 'o) session \<Rightarrow> ('c, 'o) activity list" where
  "activities (Activity a) = [a]"
| "activities (Round m as ok) = as"

definition total :: "side \<Rightarrow> ('c, 'o) session list \<Rightarrow> int" where
  "total d es = sum_list (map (volume d) (concat (map activities es)))"

lemma no_negative_volume: "no_negative a \<Longrightarrow> 0 \<le> volume d a"
  by (cases d) (auto simp: no_negative_def)

lemma sum_volume_nonneg: "list_all no_negative as \<Longrightarrow> 0 \<le> sum_list (map (volume d) as)"
  by (induction as) (auto simp: no_negative_volume)

section \<open>The contract of a server\<close>

locale traffic_server =
  fixes inv :: "'s \<Rightarrow> bool"
    and gather :: "int \<Rightarrow> 's \<Rightarrow> UserTraffic list"
    and confirm :: "UserTraffic list \<Rightarrow> 's \<Rightarrow> 's"
    and move :: "'c \<Rightarrow> int \<Rightarrow> int \<Rightarrow> 's \<Rightarrow> 's"
    and other :: "'o \<Rightarrow> 's \<Rightarrow> 's"
    and owner :: "'c \<Rightarrow> 's \<Rightarrow> string option"
    and pending :: "side \<Rightarrow> string \<Rightarrow> 's \<Rightarrow> int"
  assumes pending_count: "inv s \<Longrightarrow> is_count (pending d u s)"
    and gather_pending: "inv s \<Longrightarrow> t \<in> set (gather m s) \<Longrightarrow> traffic_of d t = pending d (ut_UUID t) s"
    and gather_named: "inv s \<Longrightarrow> t \<in> set (gather m s) \<Longrightarrow> ut_UUID t \<noteq> ''''"
    and gather_once: "inv s \<Longrightarrow> distinct (map ut_UUID (gather m s))"
    and confirm_inv: "inv s \<Longrightarrow> (\<And>t. t \<in> set ts \<Longrightarrow> proper_traffic t) \<Longrightarrow> inv (confirm ts s)"
    and confirm_pending: "inv s \<Longrightarrow> (\<And>t. t \<in> set ts \<Longrightarrow> proper_traffic t) \<Longrightarrow>
      pending d u (confirm ts s) = max 0 (pending d u s - reported d u ts)"
    and move_inv: "inv s \<Longrightarrow> 0 \<le> a \<Longrightarrow> 0 \<le> b \<Longrightarrow>
      (\<And>u. owner c s = Some u \<Longrightarrow> is_count (pending Up u s + a) \<and> is_count (pending Down u s + b)) \<Longrightarrow>
      inv (move c a b s)"
    and move_pending: "inv s \<Longrightarrow> 0 \<le> a \<Longrightarrow> 0 \<le> b \<Longrightarrow>
      (\<And>u. owner c s = Some u \<Longrightarrow> is_count (pending Up u s + a) \<and> is_count (pending Down u s + b)) \<Longrightarrow>
      pending d u (move c a b s) = pending d u s + (if owner c s = Some u then pick d a b else 0)"
    and other_inv: "inv s \<Longrightarrow> inv (other x s)"
    and other_pending: "inv s \<Longrightarrow> pending d u (other x s) = pending d u s"
begin

lemma gather_proper: "inv s \<Longrightarrow> t \<in> set (gather m s) \<Longrightarrow> proper_traffic t"
  using gather_pending [of s t m Up] gather_pending [of s t m Down]
  by (simp add: proper_traffic_def gather_named pending_count)

lemma reported_gather_le: "inv s \<Longrightarrow> reported d u (gather m s) \<le> pending d u s"
proof (cases "u \<in> ut_UUID ` set (gather m s)")
  case True
  moreover assume "inv s"
  ultimately show ?thesis by (auto simp: reported_once gather_once gather_pending)
next
  case False
  moreover assume "inv s"
  ultimately show ?thesis using pending_count [of s d u] by (simp add: reported_none is_count_def)
qed

text \<open>The books balance: what is pending and delivered is what was counted.\<close>

definition balanced :: "(side \<Rightarrow> string \<Rightarrow> int) \<Rightarrow> 's books \<Rightarrow> bool" where
  "balanced base B \<longleftrightarrow> inv (bk_server B) \<and> (\<forall>d u. 0 \<le> bk_delivered B d u \<and>
     pending d u (bk_server B) + bk_delivered B d u = base d u + bk_counted B d u)"

lemma balanced_le:
  assumes "balanced base B"
  shows "pending d u (bk_server B) \<le> base d u + bk_counted B d u"
proof -
  from assms have "0 \<le> bk_delivered B d u"
    "pending d u (bk_server B) + bk_delivered B d u = base d u + bk_counted B d u"
    by (simp_all add: balanced_def)
  then show ?thesis by linarith
qed

lemma act_balanced:
  assumes "balanced base B" and "no_negative a"
    and "\<And>d u. base d u + bk_counted B d u + volume d a < 9223372036854775808"
  shows "balanced base (act move other owner a B)"
    and "bk_delivered (act move other owner a B) = bk_delivered B"
    and "bk_counted (act move other owner a B) d u \<le> bk_counted B d u + volume d a"
    and "pending d u (bk_server B) \<le> pending d u (bk_server (act move other owner a B))"
proof -
  have le: "pending d u (bk_server B) \<le> base d u + bk_counted B d u" for d u
    using balanced_le [OF assms(1)] .
  have inv: "inv (bk_server B)" using assms(1) by (simp add: balanced_def)
  have "is_count (pending d u (bk_server B) + volume d a)" for d u
    using le [of d u] assms(3) [of d u] no_negative_volume [OF assms(2), of d] pending_count [OF inv, of d u]
    by (simp add: is_count_def)
  then have room: "is_count (pending Up u (bk_server B) + volume Up a) \<and>
      is_count (pending Down u (bk_server B) + volume Down a)" for u
    by blast
  show "balanced base (act move other owner a B)"
    "bk_counted (act move other owner a B) d u \<le> bk_counted B d u + volume d a"
    "pending d u (bk_server B) \<le> pending d u (bk_server (act move other owner a B))"
    using assms(1,2) room no_negative_volume [OF assms(2), of d]
    by (cases a; auto simp: balanced_def move_inv move_pending other_inv other_pending volume_def
        no_negative_def)+
  show "bk_delivered (act move other owner a B) = bk_delivered B"
    by (cases a) simp_all
qed

lemma acts_balanced:
  assumes "balanced base B" and "list_all no_negative as"
    and "\<And>d u. base d u + bk_counted B d u + sum_list (map (volume d) as) < 9223372036854775808"
  shows "balanced base (fold (act move other owner) as B) \<and>
    bk_delivered (fold (act move other owner) as B) = bk_delivered B \<and>
    (\<forall>d u. bk_counted (fold (act move other owner) as B) d u \<le> bk_counted B d u + sum_list (map (volume d) as)) \<and>
    (\<forall>d u. pending d u (bk_server B) \<le> pending d u (bk_server (fold (act move other owner) as B)))"
  using assms
proof (induction as arbitrary: B)
  case (Cons a as)
  have neg: "no_negative a" "list_all no_negative as" using Cons.prems(2) by simp_all
  have now: "base d u + bk_counted B d u + volume d a < 9223372036854775808" for d u
    using Cons.prems(3) [of d u] sum_volume_nonneg [OF neg(2), of d] by simp
  note A = act_balanced [OF Cons.prems(1) neg(1) now]
  have later: "base d u + bk_counted (act move other owner a B) d u + sum_list (map (volume d) as)
      < 9223372036854775808" for d u
    using A(3) [of d u] Cons.prems(3) [of d u] by simp
  from Cons.IH [OF A(1) neg(2) later] show ?case
    using A(2-4) by (simp add: add.assoc [symmetric]) (meson add_mono order_refl order_trans)
qed simp

lemma round_balanced:
  assumes "balanced base B" and "list_all no_negative as"
    and "\<And>d u. base d u + bk_counted B d u + sum_list (map (volume d) as) < 9223372036854775808"
  shows "balanced base (report_round gather confirm (fold (act move other owner) as) m ok B)"
proof -
  let ?B = "fold (act move other owner) as B" and ?ts = "gather m (bk_server B)"
  note A = acts_balanced [OF assms]
  have inv: "inv (bk_server B)" "inv (bk_server ?B)" using assms(1) A by (simp_all add: balanced_def)
  have proper: "proper_traffic t" if "t \<in> set ?ts" for t using that inv(1) by (rule gather_proper [rotated])
  have le: "reported d u ?ts \<le> pending d u (bk_server ?B)" for d u
    using reported_gather_le [OF inv(1), of d u m] A by (meson order_trans)
  have "balanced base (?B\<lparr>bk_server := confirm ?ts (bk_server ?B),
      bk_delivered := (\<lambda>d u. bk_delivered ?B d u + reported d u ?ts)\<rparr>)"
    using A inv(2) proper le reported_nonneg [OF proper]
    by (auto simp: balanced_def confirm_inv confirm_pending)
  then show ?thesis using A by (simp add: report_round_def Let_def)
qed

text \<open>
  Any session of activity and report rounds keeps the books balanced: nothing counted is
  lost, nothing is delivered twice.
\<close>

lemma session_balanced:
  assumes "balanced base B" and "list_all no_negative (concat (map activities es))"
    and "\<And>d u. base d u + bk_counted B d u + total d es < 9223372036854775808"
  shows "balanced base (fold (session_step gather confirm move other owner) es B)"
  using assms
proof (induction es arbitrary: B)
  case (Cons e es)
  let ?B = "session_step gather confirm move other owner e B"
  have neg: "list_all no_negative (activities e)" "list_all no_negative (concat (map activities es))"
    using Cons.prems(2) by simp_all
  have now: "base d u + bk_counted B d u + sum_list (map (volume d) (activities e)) < 9223372036854775808" for d u
    using Cons.prems(3) [of d u] sum_volume_nonneg [OF neg(2), of d] by (simp add: total_def)
  have A: "balanced base ?B \<and> (\<forall>d u. bk_counted ?B d u \<le> bk_counted B d u + sum_list (map (volume d) (activities e)))"
  proof (cases e)
    case (Activity a)
    then show ?thesis using acts_balanced [OF Cons.prems(1) neg(1) now] by simp
  next
    case (Round m as ok)
    then show ?thesis
      using acts_balanced [OF Cons.prems(1) neg(1) now] round_balanced [OF Cons.prems(1) neg(1) now, of m ok]
      by (simp add: report_round_def Let_def)
  qed
  have later: "base d u + bk_counted ?B d u + total d es < 9223372036854775808" for d u
  proof -
    have "bk_counted ?B d u \<le> bk_counted B d u + sum_list (map (volume d) (activities e))" using A by blast
    then show ?thesis using Cons.prems(3) [of d u] by (simp add: total_def)
  qed
  show ?case using Cons.IH [OF conjunct1 [OF A] neg(2) later] by simp
qed simp

lemma books_balance:
  assumes "inv s" and "list_all no_negative (concat (map activities es))"
    and "\<And>d u. pending d u s + total d es < 9223372036854775808"
    and "B = fold (session_step gather confirm move other owner) es
      \<lparr>bk_server = s, bk_counted = (\<lambda>_ _. 0), bk_delivered = (\<lambda>_ _. 0)\<rparr>"
  shows "inv (bk_server B) \<and> 0 \<le> bk_delivered B d u \<and>
    pending d u (bk_server B) + bk_delivered B d u = pending d u s + bk_counted B d u"
proof -
  have "balanced (\<lambda>d u. pending d u s) B"
    unfolding assms(4)
    by (rule session_balanced) (use assms in \<open>simp_all add: balanced_def\<close>)
  then show ?thesis by (simp add: balanced_def)
qed

end

end
