(* ===== verification/Embedded.thy ===== *)
theory Embedded
  imports Key_Store Sudoku_Config Server_Interface
begin

text \<open>
  \<open>internal/runtime/embedded.go\<close>: the engine that serves Sudoku connections in the process.

  The counters are shared objects: the \<open>counters\<close> map and every connection hold pointers to
  them, and a connection may outlive its counter's entry in the map. They live in a heap, a
  list of counters indexed by pointer, and an allocation appends to it. Each method runs
  under the engine's mutex, so it is a function of the state; the key store and the disk are
  threaded through. What the connections hold is a part of the state too (\<open>em_conns\<close>).
\<close>

record 'table embedded =
  em_node :: NodeInfo
  em_runtime :: RuntimeConfig
  em_keyStore :: ClientKeyStore
  em_users :: "string \<rightharpoonup> UserInfo"
  em_userHashToUUID :: "string \<rightharpoonup> string"
  em_counters :: "string \<rightharpoonup> nat"
  em_heap :: "trafficCounter list"
  em_online :: "string \<rightharpoonup> onlineState"
  em_aliveList :: "int \<rightharpoonup> int"
  em_cfg :: Config
  em_tables :: "'table list"
  em_listening :: bool
  em_active :: "nat set"
  em_closed :: bool
  em_conns :: "nat \<rightharpoonup> string \<times> nat"

section \<open>The user table and the counters\<close>

definition newCounter :: "int \<Rightarrow> string \<Rightarrow> trafficCounter" where
  "newCounter uid uuid = \<lparr>tc_uid = uid, tc_uuid = uuid, tc_up = 0, tc_down = 0\<rparr>"

text \<open>Find or make the counter of a UUID and write the user's id and UUID to it.\<close>

definition claimCounter :: "int \<Rightarrow> string \<Rightarrow> 't embedded \<Rightarrow> 't embedded" where
  "claimCounter uid uuid e =
     (case em_counters e uuid of
        Some p \<Rightarrow> e\<lparr>em_heap := (em_heap e)[p := (em_heap e ! p)\<lparr>tc_uid := uid, tc_uuid := uuid\<rparr>]\<rparr>
      | None \<Rightarrow> e\<lparr>em_counters := (em_counters e)(uuid \<mapsto> length (em_heap e)),
                em_heap := em_heap e @ [newCounter uid uuid]\<rparr>)"

definition upsertUserLocked :: "UserInfo \<Rightarrow> 't embedded \<Rightarrow> 't embedded" where
  "upsertUserLocked user e =
     (if ui_Uuid user = '''' then e
      else claimCounter (ui_Id user) (ui_Uuid user) (e\<lparr>em_users := (em_users e)(ui_Uuid user \<mapsto> user)\<rparr>))"

definition idle :: "'t embedded \<Rightarrow> string \<Rightarrow> bool" where
  "idle e uuid \<longleftrightarrow>
     (case em_counters e uuid of None \<Rightarrow> False | Some p \<Rightarrow> snapshot (em_heap e ! p) = (0, 0))"

definition deleteUserLocked :: "UserInfo \<Rightarrow> 't embedded \<Rightarrow> 't embedded" where
  "deleteUserLocked user e =
     e\<lparr>em_users := (em_users e)(ui_Uuid user := None),
       em_online := (em_online e)(ui_Uuid user := None),
       em_counters := (if idle e (ui_Uuid user) then (em_counters e)(ui_Uuid user := None) else em_counters e)\<rparr>"

definition pruneCounters :: "'t embedded \<Rightarrow> 't embedded" where
  "pruneCounters e =
     e\<lparr>em_counters := (\<lambda>uuid. if em_users e uuid = None \<and> idle e uuid then None else em_counters e uuid)\<rparr>"

text \<open>\<open>userHashToUUID\<close> from the mappings of the key store.\<close>

definition hashTable :: "UserKey list \<Rightarrow> string \<rightharpoonup> string" where
  "hashTable keys = fold (\<lambda>k m. if uk_UserHash k \<noteq> '''' \<and> uk_UUID k \<noteq> ''''
     then m(uk_UserHash k \<mapsto> uk_UUID k) else m) keys Map.empty"

definition listUsers :: "string iter \<Rightarrow> (string \<rightharpoonup> UserInfo) \<Rightarrow> UserInfo list" where
  "listUsers it m = map (\<lambda>k. the (m k)) (visit it (dom m))"

definition rebuildUserHashesLocked ::
  "'sc keyenv \<Rightarrow> string iter \<Rightarrow> 't embedded \<Rightarrow> os \<Rightarrow> key_error option \<times> 't embedded \<times> os"
where
  "rebuildUserHashesLocked K it e w =
     (case BuildMappings K (em_node e) (listUsers it (em_users e)) (em_keyStore e) w of
        (Inl err, ks, w') \<Rightarrow> (Some err, e\<lparr>em_keyStore := ks\<rparr>, w')
      | (Inr keys, ks, w') \<Rightarrow> (None, e\<lparr>em_keyStore := ks, em_userHashToUUID := hashTable keys\<rparr>, w'))"

definition replaceUsersLocked ::
  "'sc keyenv \<Rightarrow> string iter \<Rightarrow> UserInfo list \<Rightarrow> 't embedded \<Rightarrow> os \<Rightarrow> key_error option \<times> 't embedded \<times> os"
where
  "replaceUsersLocked K it users e w =
     rebuildUserHashesLocked K it (pruneCounters (fold upsertUserLocked users (e\<lparr>em_users := Map.empty\<rparr>))) w"

definition UpdateUsers ::
  "'sc keyenv \<Rightarrow> string iter \<Rightarrow> UserInfo list \<Rightarrow> UserInfo list \<Rightarrow> UserInfo list \<Rightarrow> UserInfo list option \<Rightarrow>
   't embedded \<Rightarrow> os \<Rightarrow> key_error option \<times> 't embedded \<times> os"
where
  "UpdateUsers K it added deleted modified full e w =
     (case full of
        Some users \<Rightarrow> replaceUsersLocked K it users e w
      | None \<Rightarrow> rebuildUserHashesLocked K it
          (fold upsertUserLocked modified (fold upsertUserLocked added (fold deleteUserLocked deleted e))) w)"

definition SetAliveList :: "(int \<rightharpoonup> int) \<Rightarrow> 't embedded \<Rightarrow> 't embedded" where
  "SetAliveList alive e = e\<lparr>em_aliveList := alive\<rparr>"

section \<open>Construction, start and close\<close>

datatype embedded_error = BadConfig config_error | BadTables | BadKeys key_error | ListenFailed

definition emptyEmbedded ::
  "NodeInfo \<Rightarrow> (int \<rightharpoonup> int) \<Rightarrow> RuntimeConfig \<Rightarrow> ClientKeyStore \<Rightarrow> Config \<Rightarrow> 't list \<Rightarrow> 't embedded"
where
  "emptyEmbedded node alive cfg keyStore sc tables =
     \<lparr>em_node = node, em_runtime = cfg, em_keyStore = keyStore, em_users = Map.empty,
      em_userHashToUUID = Map.empty, em_counters = Map.empty, em_heap = [], em_online = Map.empty,
      em_aliveList = alive, em_cfg = sc, em_tables = tables, em_listening = False, em_active = {},
      em_closed = False, em_conns = Map.empty\<rparr>"

definition NewEmbedded ::
  "('p, 't) cfgenv \<Rightarrow> 'sc keyenv \<Rightarrow> string iter \<Rightarrow> NodeInfo \<Rightarrow> UserInfo list \<Rightarrow> (int \<rightharpoonup> int) \<Rightarrow> RuntimeConfig \<Rightarrow>
   ClientKeyStore \<Rightarrow> os \<Rightarrow> (embedded_error + 't embedded) \<times> ClientKeyStore \<times> os"
where
  "NewEmbedded E K it node users alive cfg keyStore w =
     (case buildSudokuConfig E node cfg of
        Inl err \<Rightarrow> (Inl (BadConfig err), keyStore, w)
      | Inr sc \<Rightarrow>
          (case ce_BuildTables E sc of
             None \<Rightarrow> (Inl BadTables, keyStore, w)
           | Some tables \<Rightarrow>
               (case replaceUsersLocked K it users (emptyEmbedded node alive cfg keyStore sc tables) w of
                  (Some err, e, w') \<Rightarrow> (Inl (BadKeys err), em_keyStore e, w')
                | (None, e, w') \<Rightarrow> (Inr e, em_keyStore e, w'))))"

text \<open>\<open>listens\<close>: whether \<open>net.Listen\<close> can have the address.\<close>

definition Start :: "(string \<Rightarrow> bool) \<Rightarrow> 't embedded \<Rightarrow> embedded_error option \<times> 't embedded" where
  "Start listens e =
     (if listens (listenAddress (em_node e)) then (None, e\<lparr>em_listening := True\<rparr>) else (Some ListenFailed, e))"

definition closeActiveConns :: "'t embedded \<Rightarrow> nat set" where
  "closeActiveConns e = em_active e"

text \<open>
  \<open>Close\<close> runs once: it stops the listener and closes the raw connections it returns; it then
  waits for their handlers, each of which ends in \<open>unregisterConn\<close>.
\<close>

definition Close :: "'t embedded \<Rightarrow> nat set \<times> 't embedded" where
  "Close e =
     (if em_closed e then ({}, e)
      else (closeActiveConns e, e\<lparr>em_closed := True, em_listening := False\<rparr>))"

definition registerConn :: "nat \<Rightarrow> 't embedded \<Rightarrow> 't embedded" where
  "registerConn c e = e\<lparr>em_active := insert c (em_active e)\<rparr>"

definition unregisterConn :: "nat \<Rightarrow> 't embedded \<Rightarrow> 't embedded" where
  "unregisterConn c e = e\<lparr>em_active := em_active e - {c}, em_conns := (em_conns e)(c := None)\<rparr>"

section \<open>Traffic reports\<close>

definition overThreshold :: "int \<Rightarrow> int64 \<Rightarrow> int64 \<Rightarrow> bool" where
  "overThreshold reportMin up down \<longleftrightarrow> \<not> wrap64 (up + down) \<le> wrap64 (reportMin * 1000)"

definition trafficEntry :: "int \<Rightarrow> 't embedded \<Rightarrow> string \<Rightarrow> UserTraffic option" where
  "trafficEntry reportMin e uuid =
     (case em_counters e uuid of
        None \<Rightarrow> None
      | Some p \<Rightarrow>
          (case snapshot (em_heap e ! p) of
             (up, down) \<Rightarrow>
               if \<not> overThreshold reportMin up down then None
               else case em_users e uuid of
                 None \<Rightarrow> None
               | Some user \<Rightarrow>
                   if ui_Id user = 0 then None
                   else Some \<lparr>ut_UID = ui_Id user, ut_Upload = up, ut_Download = down, ut_UUID = uuid\<rparr>))"

definition GetUserTrafficSlice :: "string iter \<Rightarrow> int \<Rightarrow> 't embedded \<Rightarrow> UserTraffic list" where
  "GetUserTrafficSlice it reportMin e =
     sort_slice ut_UID (List.map_filter (trafficEntry reportMin e) (visit it (dom (em_counters e))))"

definition uuidByUIDLocked :: "string iter \<Rightarrow> int \<Rightarrow> (string \<rightharpoonup> UserInfo) \<Rightarrow> string" where
  "uuidByUIDLocked it uid users =
     (case find (\<lambda>uuid. ui_Id (the (users uuid)) = uid) (visit it (dom users)) of
        None \<Rightarrow> '''' | Some uuid \<Rightarrow> uuid)"

definition confirmOne :: "string iter \<Rightarrow> UserTraffic \<Rightarrow> 't embedded \<Rightarrow> 't embedded" where
  "confirmOne it traffic e =
     (let uuid = (if ut_UUID traffic = '''' then uuidByUIDLocked it (ut_UID traffic) (em_users e) else ut_UUID traffic)
      in case em_counters e uuid of
           None \<Rightarrow> e
         | Some p \<Rightarrow>
             e\<lparr>em_heap := (em_heap e)[p := subtract (ut_Upload traffic) (ut_Download traffic) (em_heap e ! p)]\<rparr>)"

definition ConfirmUserTraffic :: "string iter \<Rightarrow> UserTraffic list \<Rightarrow> 't embedded \<Rightarrow> 't embedded" where
  "ConfirmUserTraffic it ts e = fold (confirmOne it) ts e"

section \<open>Online users\<close>

definition onlineCutoff :: "int64 \<Rightarrow> int64 \<Rightarrow> int64" where
  "onlineCutoff now pushInterval =
     (if pushInterval \<le> 0 then now - 2 * Minute else now + wrap64 (- 2 * pushInterval))"

definition onlineIP :: "int \<Rightarrow> string \<Rightarrow> string" where
  "onlineIP nodeID ip = (if ip = '''' then ''unknown_'' @ Itoa nodeID else ip)"

definition onlineEntry :: "int64 \<Rightarrow> int \<Rightarrow> (string \<rightharpoonup> UserInfo) \<Rightarrow> (string \<rightharpoonup> onlineState) \<Rightarrow> string \<Rightarrow> OnlineUser option" where
  "onlineEntry cutoff nodeID users online uuid =
     (case online uuid of
        None \<Rightarrow> None
      | Some st \<Rightarrow>
          if on_seenAt st < cutoff then None
          else case users uuid of
            None \<Rightarrow> None
          | Some user \<Rightarrow>
              if ui_Id user = 0 then None
              else Some \<lparr>ou_UID = ui_Id user, ou_IP = onlineIP nodeID (on_ip st)\<rparr>)"

definition dropOld :: "int64 \<Rightarrow> (string \<rightharpoonup> onlineState) \<Rightarrow> string \<rightharpoonup> onlineState" where
  "dropOld cutoff online =
     (\<lambda>uuid. case online uuid of None \<Rightarrow> None
       | Some st \<Rightarrow> if on_seenAt st < cutoff then None else Some st)"

definition GetOnlineDevice :: "string iter \<Rightarrow> int64 \<Rightarrow> 't embedded \<Rightarrow> OnlineUser list \<times> 't embedded" where
  "GetOnlineDevice it now e =
     (let cutoff = onlineCutoff now (ni_PushInterval (em_node e)) in
      (List.map_filter (onlineEntry cutoff (ni_Id (em_node e)) (em_users e) (em_online e)) (visit it (dom (em_online e))),
       e\<lparr>em_online := dropOld cutoff (em_online e)\<rparr>))"

section \<open>Connections\<close>

definition addrString :: "string option \<Rightarrow> string" where
  "addrString addr = deref_or '''' addr"

definition clientIP :: "string \<Rightarrow> string" where
  "clientIP remote = (case SplitHostPort remote of None \<Rightarrow> remote | Some (host, _) \<Rightarrow> host)"

definition counterForUserHash ::
  "string \<Rightarrow> string option \<Rightarrow> int64 \<Rightarrow> 't embedded \<Rightarrow> (string \<times> nat) option \<times> 't embedded"
where
  "counterForUserHash userHash remote now e =
     (let uuid = zero_of '''' (em_userHashToUUID e) userHash in
      if uuid = '''' then (None, e)
      else
        let user = zero_of zeroUser (em_users e) uuid in
        if ui_Id user = 0 then (None, e)
        else
          let e1 = claimCounter (ui_Id user) uuid e in
          (Some (uuid, the (em_counters e1 uuid)),
           e1\<lparr>em_online := (em_online e1)(uuid \<mapsto> \<lparr>on_seenAt = now, on_ip = clientIP (addrString remote)\<rparr>)\<rparr>))"

definition markOffline :: "string \<Rightarrow> int64 \<Rightarrow> 't embedded \<Rightarrow> 't embedded" where
  "markOffline uuid now e =
     (case em_online e uuid of
        None \<Rightarrow> e
      | Some st \<Rightarrow> e\<lparr>em_online := (em_online e)(uuid \<mapsto> st\<lparr>on_seenAt := now\<rparr>)\<rparr>)"

definition DebugUserHashMap :: "'t embedded \<Rightarrow> string \<rightharpoonup> int" where
  "DebugUserHashMap e =
     (\<lambda>hash. map_option (\<lambda>uuid. ui_Id (zero_of zeroUser (em_users e) uuid)) (em_userHashToUUID e hash))"

definition MarshalConfig :: "('p, 't) cfgenv \<Rightarrow> 't embedded \<Rightarrow> string option" where
  "MarshalConfig E e = ce_MarshalConfig E (em_cfg e)"

text \<open>
  The counted connection of a handler: it reads \<open>up\<close> bytes from the client and writes \<open>down\<close>
  bytes to it, through the pointer it was given.
\<close>

definition connMove :: "nat \<Rightarrow> int \<Rightarrow> int \<Rightarrow> 't embedded \<Rightarrow> 't embedded" where
  "connMove c up down e =
     (case em_conns e c of
        None \<Rightarrow> e
      | Some (_, p) \<Rightarrow>
          e\<lparr>em_heap := (em_heap e)[p :=
              the (snd (conn_Write (down, None :: unit option) (snd (conn_Read (up, None :: unit option) (Some (em_heap e ! p))))))]\<rparr>)"

section \<open>Handling a connection\<close>

text \<open>
  What the Sudoku module answers along the way: the HTTP mask prelude, the handshake, the
  control messages, the decoded target and the dial.
\<close>

datatype prelude = PreludeFailed | HandleDone | HandleStartTunnel | HandlePassThrough bool | HandleOther

datatype handshake = HandshakeSuspicious | HandshakeFailed | HandshakeDone "string option"

datatype control = StartUoT | StartMux | OpenTCP "string option" bool | UnknownControl

datatype kip = KeepAlive | Control control

text \<open>What the handler does with the connection, in order.\<close>

datatype action =
    CloseRaw | CloseTunnel | HandleSuspicious
  | AccessLog int int string string string
  | ServeUoT | ServeMux | ServeTCP string
  | MarkOffline string

datatype route = Ended "action list" | Sudoku Config bool

definition passThroughOnReject :: "Config \<Rightarrow> bool" where
  "passThroughOnReject cfg =
     (if sc_SuspiciousAction cfg = ''silent'' then True
      else sc_SuspiciousAction cfg = ''fallback'' \<and> TrimSpace (sc_FallbackAddr cfg) \<noteq> '''')"

definition innerConfig :: "Config \<Rightarrow> Config" where
  "innerConfig cfg = cfg\<lparr>sc_HTTPMask := (sc_HTTPMask cfg)\<lparr>mc_Disable := True\<rparr>\<rparr>"

text \<open>
  \<open>handleConn\<close> up to the Sudoku handshake. \<open>tunnelEnabled\<close> is the configuration's own
  \<open>HTTPMaskTunnelEnabled\<close>, \<open>answer\<close> what the tunnel server says of the connection.
\<close>

definition handleConn :: "(Config \<Rightarrow> bool) \<Rightarrow> prelude \<Rightarrow> Config \<Rightarrow> route" where
  "handleConn tunnelEnabled answer cfg =
     (if tunnelEnabled cfg then
        (case answer of
           PreludeFailed \<Rightarrow> Ended [CloseRaw]
         | HandleDone \<Rightarrow> Ended []
         | HandleStartTunnel \<Rightarrow> Sudoku (innerConfig cfg) False
         | HandlePassThrough rejected \<Rightarrow> if rejected then Ended [HandleSuspicious] else Sudoku cfg True
         | HandleOther \<Rightarrow> Ended [CloseRaw])
      else Sudoku cfg True)"

text \<open>Keep-alives are skipped; an error is the end of the messages.\<close>

fun readFirstControl :: "kip list \<Rightarrow> control option" where
  "readFirstControl [] = None"
| "readFirstControl (KeepAlive # ms) = readFirstControl ms"
| "readFirstControl (Control c # ms) = Some c"

definition orDash :: "string \<Rightarrow> string" where
  "orDash target = (if target = '''' then ''-'' else target)"

text \<open>Serving the first control message: the actions, and whether the handler gets to its end.\<close>

definition serve :: "int \<Rightarrow> int \<Rightarrow> string \<Rightarrow> control \<Rightarrow> action list \<times> bool" where
  "serve nodeID uid source msg =
     (case msg of
        StartUoT \<Rightarrow> ([AccessLog nodeID uid source ''uot'' (orDash ''session''), ServeUoT], True)
      | StartMux \<Rightarrow> ([AccessLog nodeID uid source ''mux'' (orDash ''session''), ServeMux], True)
      | OpenTCP None _ \<Rightarrow> ([], False)
      | OpenTCP (Some dest) dialed \<Rightarrow>
          (if dialed then ([AccessLog nodeID uid source ''tcp'' (orDash dest), ServeTCP dest], True)
           else ([AccessLog nodeID uid source ''tcp'' (orDash dest)], False))
      | UnknownControl \<Rightarrow> ([], True))"

text \<open>
  \<open>handleSudokuConn\<close> up to the service of the client. The counter's \<open>uid\<close> is read when the
  access is logged. \<open>MarkOffline\<close> is the last action of a handler that gets to its end; the
  state it then changes is that of its own time.
\<close>

definition handleSudokuConn ::
  "nat \<Rightarrow> handshake \<Rightarrow> bool \<Rightarrow> string option \<Rightarrow> int64 \<Rightarrow> kip list \<Rightarrow> 't embedded \<Rightarrow> action list \<times> 't embedded"
where
  "handleSudokuConn c shake allowFallback remote now msgs e =
     (case shake of
        HandshakeSuspicious \<Rightarrow> ([if allowFallback then HandleSuspicious else CloseRaw], e)
      | HandshakeFailed \<Rightarrow> ([CloseRaw], e)
      | HandshakeDone meta \<Rightarrow>
          (case counterForUserHash (deref_or '''' meta) remote now e of
             (None, e1) \<Rightarrow> ([CloseTunnel], e1)
           | (Some (uuid, p), e1) \<Rightarrow>
               let e2 = e1\<lparr>em_conns := (em_conns e1)(c \<mapsto> (uuid, p))\<rparr> in
               case readFirstControl msgs of
                 None \<Rightarrow> ([], e2)
               | Some msg \<Rightarrow>
                   case serve (ni_Id (em_node e2)) (tc_uid (em_heap e2 ! p)) (clientIP (addrString remote)) msg of
                     (acts, reached) \<Rightarrow> (if reached then acts @ [MarkOffline uuid] else acts, e2)))"

text \<open>\<open>isExpectedClose\<close>: an error by its kind, else by its lowered text.\<close>

datatype conn_error = EOF | NetClosed | OsClosed | OtherError string

definition isExpectedClose :: "conn_error option \<Rightarrow> bool" where
  "isExpectedClose err =
     (case err of
        Some (OtherError text) \<Rightarrow>
          (let msg = ToLower text in
           contains msg ''use of closed network connection'' \<or>
           contains msg ''connection reset by peer'' \<or> contains msg ''broken pipe'')
      | _ \<Rightarrow> True)"

section \<open>The invariant\<close>

definition counter_of :: "trafficCounter list \<Rightarrow> string \<Rightarrow> nat \<Rightarrow> bool" where
  "counter_of heap uuid p \<longleftrightarrow> p < length heap \<and> tc_uuid (heap ! p) = uuid"

text \<open>
  Every user is filed under its own nonblank UUID and has a counter; every counter belongs
  to the UUID it is filed under and holds proper counts; a connection's pointer leads to a
  counter of its UUID, in the map or not.
\<close>

definition emb_ok :: "'t embedded \<Rightarrow> bool" where
  "emb_ok e \<longleftrightarrow>
     finite (dom (em_counters e)) \<and> dom (em_users e) \<subseteq> dom (em_counters e) \<and>
     (\<forall>u x. em_users e u = Some x \<longrightarrow> ui_Uuid x = u) \<and>
     (\<forall>u p. em_counters e u = Some p \<longrightarrow> u \<noteq> '''' \<and> counter_of (em_heap e) u p \<and> counter_ok (em_heap e ! p)) \<and>
     (\<forall>c u p. em_conns e c = Some (u, p) \<longrightarrow> counter_of (em_heap e) u p)"

lemma emb_okD:
  assumes "emb_ok e"
  shows "finite (dom (em_counters e))" "finite (dom (em_users e))"
    "dom (em_users e) \<subseteq> dom (em_counters e)"
    "em_users e u = Some x \<Longrightarrow> ui_Uuid x = u"
    "em_counters e u = Some p \<Longrightarrow> u \<noteq> ''''"
    "em_counters e u = Some p \<Longrightarrow> p < length (em_heap e)"
    "em_counters e u = Some p \<Longrightarrow> tc_uuid (em_heap e ! p) = u"
    "em_counters e u = Some p \<Longrightarrow> counter_ok (em_heap e ! p)"
    "em_conns e c = Some (u, p) \<Longrightarrow> p < length (em_heap e)"
    "em_conns e c = Some (u, p) \<Longrightarrow> tc_uuid (em_heap e ! p) = u"
  using assms finite_subset [of "dom (em_users e)" "dom (em_counters e)"]
  by (auto simp: emb_ok_def counter_of_def)

lemma emb_okI:
  assumes "finite (dom (em_counters e))" and "dom (em_users e) \<subseteq> dom (em_counters e)"
    and "\<And>u x. em_users e u = Some x \<Longrightarrow> ui_Uuid x = u"
    and "\<And>u p. em_counters e u = Some p \<Longrightarrow> u \<noteq> '''' \<and> counter_of (em_heap e) u p \<and> counter_ok (em_heap e ! p)"
    and "\<And>c u p. em_conns e c = Some (u, p) \<Longrightarrow> counter_of (em_heap e) u p"
  shows "emb_ok e"
  using assms by (simp add: emb_ok_def)

lemma emb_ok_counter:
  "emb_ok e \<Longrightarrow> em_counters e u = Some p \<Longrightarrow> u \<noteq> '''' \<and> counter_of (em_heap e) u p \<and> counter_ok (em_heap e ! p)"
  and emb_ok_conn: "emb_ok e \<Longrightarrow> em_conns e c = Some (u, p) \<Longrightarrow> counter_of (em_heap e) u p"
  by (simp_all add: emb_ok_def)

lemma counters_disjoint:
  assumes "emb_ok e" and "em_counters e u = Some p" and "em_counters e v = Some p"
  shows "u = v"
  using emb_okD(7) [OF assms(1,2)] emb_okD(7) [OF assms(1,3)] by simp

definition pending_of :: "side \<Rightarrow> string \<Rightarrow> 't embedded \<Rightarrow> int" where
  "pending_of d u e =
     (case em_counters e u of None \<Rightarrow> 0
      | Some p \<Rightarrow> pick d (tc_up (em_heap e ! p)) (tc_down (em_heap e ! p)))"

lemma pending_same:
  "em_counters e' u = em_counters e u \<Longrightarrow> em_heap e' = em_heap e \<Longrightarrow> pending_of d u e' = pending_of d u e"
  by (simp add: pending_of_def split: option.split)

text \<open>The UUID a connection's bytes are booked to: its counter's, while the map still has it.\<close>

definition ownerConn :: "nat \<Rightarrow> 't embedded \<Rightarrow> string option" where
  "ownerConn c e =
     (case em_conns e c of None \<Rightarrow> None
      | Some (u, p) \<Rightarrow> if em_counters e u = Some p then Some u else None)"

text \<open>A write to one counter that leaves its UUID and keeps it a count.\<close>

lemma heap_update_ok:
  assumes "emb_ok e" and "tc_uuid k = tc_uuid (em_heap e ! p)"
    and "\<And>u. em_counters e u = Some p \<Longrightarrow> counter_ok k"
  shows "emb_ok (e\<lparr>em_heap := (em_heap e)[p := k]\<rparr>)"
proof (cases "p < length (em_heap e)")
  case True
  then show ?thesis
    using assms emb_okD [OF assms(1)] by (auto simp: emb_ok_def counter_of_def nth_list_update)
next
  case False
  then show ?thesis using assms(1) by (simp add: list_update_beyond)
qed

lemma heap_update_pending:
  assumes "emb_ok e" and "em_counters e u = Some p"
  shows "pending_of d v (e\<lparr>em_heap := (em_heap e)[p := k]\<rparr>) =
    (if v = u then pick d (tc_up k) (tc_down k) else pending_of d v e)"
proof (cases "v = u")
  case True
  then show ?thesis using assms(2) emb_okD(6) [OF assms] by (simp add: pending_of_def)
next
  case False
  then have "em_counters e v \<noteq> Some p" using counters_disjoint [OF assms] by blast
  then show ?thesis using False by (auto simp: pending_of_def nth_list_update split: option.splits)
qed

lemma claimCounter_ok:
  assumes "emb_ok e" and "u \<noteq> ''''"
  shows "emb_ok (claimCounter i u e)" and "pending_of d v (claimCounter i u e) = pending_of d v e"
    and "u \<in> dom (em_counters (claimCounter i u e))"
    and "dom (em_counters (claimCounter i u e)) = insert u (dom (em_counters e))"
    and "em_users (claimCounter i u e) = em_users e"
proof -
  show "emb_ok (claimCounter i u e)"
  proof (cases "em_counters e u")
    case None
    have "counter_ok (newCounter i u)" by (simp add: newCounter_def counter_ok_def)
    then show ?thesis
      using assms emb_okD [OF assms(1)] None
      by (auto simp: claimCounter_def emb_ok_def counter_of_def nth_append newCounter_def less_Suc_eq)
  next
    case (Some p)
    then show ?thesis
      using heap_update_ok [OF assms(1), of "(em_heap e ! p)\<lparr>tc_uid := i, tc_uuid := u\<rparr>" p]
        emb_okD(7,8) [OF assms(1)] by (simp add: claimCounter_def counter_ok_def)
  qed
  show "pending_of d v (claimCounter i u e) = pending_of d v e"
  proof (cases "em_counters e u")
    case None
    then show ?thesis
      using emb_okD(6) [OF assms(1)]
      by (auto simp: claimCounter_def pending_of_def newCounter_def nth_append split: option.splits) (cases d; simp)
  next
    case (Some p)
    then show ?thesis
      using heap_update_pending [OF assms(1) Some] by (simp add: claimCounter_def pending_of_def)
  qed
qed (auto simp: claimCounter_def split: option.splits)

lemma claimCounter_users: "claimCounter i u (e\<lparr>em_users := m\<rparr>) = (claimCounter i u e)\<lparr>em_users := m\<rparr>"
  by (simp add: claimCounter_def split: option.splits)

lemma upsert_ok:
  assumes "emb_ok e"
  shows "emb_ok (upsertUserLocked x e)" and "pending_of d v (upsertUserLocked x e) = pending_of d v e"
proof -
  let ?e = "claimCounter (ui_Id x) (ui_Uuid x) e"
  have "emb_ok (upsertUserLocked x e) \<and> pending_of d v (upsertUserLocked x e) = pending_of d v e"
  proof (cases "ui_Uuid x = ''''")
    case True
    then show ?thesis using assms by (simp add: upsertUserLocked_def)
  next
    case False
    note C = claimCounter_ok [OF assms False, where i = "ui_Id x"]
    have "emb_ok (?e\<lparr>em_users := (em_users e)(ui_Uuid x \<mapsto> x)\<rparr>)"
      using C emb_okD(3,4) [OF assms] by (auto simp: emb_ok_def counter_of_def)
    moreover have "pending_of d v (?e\<lparr>em_users := (em_users e)(ui_Uuid x \<mapsto> x)\<rparr>) = pending_of d v e"
      using C(2) pending_same [of "?e\<lparr>em_users := (em_users e)(ui_Uuid x \<mapsto> x)\<rparr>" v ?e d] by simp
    ultimately show ?thesis using False by (simp add: upsertUserLocked_def claimCounter_users)
  qed
  then show "emb_ok (upsertUserLocked x e)" "pending_of d v (upsertUserLocked x e) = pending_of d v e"
    by (rule conjunct1, rule conjunct2)
qed

text \<open>Forgetting idle counters and users forgets no traffic.\<close>

lemma forget_ok:
  assumes "emb_ok e" and "\<And>u. C u = em_counters e u \<or> (C u = None \<and> idle e u \<and> U u = None)"
    and "\<And>u. U u = em_users e u \<or> U u = None"
  shows "emb_ok (e\<lparr>em_users := U, em_online := on, em_counters := C\<rparr>)"
    and "pending_of d v (e\<lparr>em_users := U, em_online := on, em_counters := C\<rparr>) = pending_of d v e"
proof -
  have CS: "em_counters e u = Some p" if "C u = Some p" for u p using assms(2) [of u] that by simp
  have US: "em_users e u = Some x" if "U u = Some x" for u x using assms(3) [of u] that by simp
  show "emb_ok (e\<lparr>em_users := U, em_online := on, em_counters := C\<rparr>)"
  proof (rule emb_okI)
    have "dom C \<subseteq> dom (em_counters e)" using CS by (auto simp: dom_def)
    with emb_okD(1) [OF assms(1)] show "finite (dom (em_counters (e\<lparr>em_users := U, em_online := on, em_counters := C\<rparr>)))"
      by (auto intro: finite_subset)
    have "u \<in> dom C" if "U u = Some x" for u x
      using US [OF that] emb_okD(3) [OF assms(1)] that assms(2) [of u] by auto
    then show "dom (em_users (e\<lparr>em_users := U, em_online := on, em_counters := C\<rparr>)) \<subseteq>
        dom (em_counters (e\<lparr>em_users := U, em_online := on, em_counters := C\<rparr>))" by auto
  qed (simp, erule emb_okD(4) [OF assms(1) US], simp, erule emb_ok_counter [OF assms(1) CS],
      simp, erule emb_ok_conn [OF assms(1)])
  show "pending_of d v (e\<lparr>em_users := U, em_online := on, em_counters := C\<rparr>) = pending_of d v e"
  proof (cases "C v = em_counters e v")
    case True
    then show ?thesis by (intro pending_same) simp_all
  next
    case False
    then have "C v = None" "idle e v" using assms(2) [of v] by auto
    then show ?thesis
      by (cases d) (auto simp: pending_of_def idle_def snapshot_def split: option.splits)
  qed
qed

lemma delete_ok:
  assumes "emb_ok e"
  shows "emb_ok (deleteUserLocked x e)" and "pending_of d v (deleteUserLocked x e) = pending_of d v e"
proof -
  have *: "(if idle e v then (em_counters e)(v := None) else em_counters e) u = em_counters e u \<or>
      (if idle e v then (em_counters e)(v := None) else em_counters e) u = None \<and> idle e u \<and>
      ((em_users e)(v := None)) u = None" for u v
    by simp
  have **: "((em_users e)(v := None)) u = em_users e u \<or> ((em_users e)(v := None)) u = None" for u v
    by simp
  show "emb_ok (deleteUserLocked x e)" "pending_of d v (deleteUserLocked x e) = pending_of d v e"
    unfolding deleteUserLocked_def by (rule forget_ok [OF assms * **])+
qed

lemma prune_ok:
  assumes "emb_ok e"
  shows "emb_ok (pruneCounters e)" and "pending_of d v (pruneCounters e) = pending_of d v e"
proof -
  have eq: "pruneCounters e = e\<lparr>em_users := em_users e, em_online := em_online e,
      em_counters := (\<lambda>uuid. if em_users e uuid = None \<and> idle e uuid then None else em_counters e uuid)\<rparr>"
    by (simp add: pruneCounters_def)
  show "emb_ok (pruneCounters e)" "pending_of d v (pruneCounters e) = pending_of d v e"
    unfolding eq by (rule forget_ok [OF assms]; simp split: if_splits)+
qed

text \<open>Lifting through loops and through what does not touch users, counters or connections.\<close>

definition keeps :: "('t embedded \<Rightarrow> 't embedded) \<Rightarrow> bool" where
  "keeps f \<longleftrightarrow> (\<forall>e. emb_ok e \<longrightarrow> emb_ok (f e) \<and> (\<forall>d u. pending_of d u (f e) = pending_of d u e))"

lemma keepsD: "keeps f \<Longrightarrow> emb_ok e \<Longrightarrow> emb_ok (f e)" "keeps f \<Longrightarrow> emb_ok e \<Longrightarrow> pending_of d u (f e) = pending_of d u e"
  by (simp_all add: keeps_def)

lemma keeps_user_ops:
  "keeps (upsertUserLocked x)" "keeps (deleteUserLocked x)" "keeps pruneCounters"
  by (simp_all add: keeps_def upsert_ok delete_ok prune_ok)

lemma keepsI:
  assumes "\<And>e. emb_ok e \<Longrightarrow> emb_ok (f e)" and "\<And>e d u. emb_ok e \<Longrightarrow> pending_of d u (f e) = pending_of d u e"
  shows "keeps f"
  unfolding keeps_def using assms by blast

lemma keeps_comp: "keeps f \<Longrightarrow> keeps g \<Longrightarrow> keeps (\<lambda>e. f (g e))"
  by (rule keepsI) (simp_all only: keepsD)

lemma keeps_fold:
  assumes "\<And>x. keeps (f x)"
  shows "keeps (fold f xs)"
proof (induction xs)
  case Nil
  show ?case by (rule keepsI) simp_all
next
  case (Cons x xs)
  then show ?case using keeps_comp [OF Cons.IH assms] by (simp add: comp_def)
qed

lemma keeps_same:
  fixes f :: "'t embedded \<Rightarrow> 't embedded"
  assumes "\<And>e. em_users (f e) = em_users e" "\<And>e. em_counters (f e) = em_counters e"
    "\<And>e. em_heap (f e) = em_heap e" "\<And>e. em_conns (f e) \<subseteq>\<^sub>m em_conns e"
  shows "keeps f"
proof (rule keepsI)
  fix e :: "'t embedded"
  assume e: "emb_ok e"
  show "emb_ok (f e)"
  proof (rule emb_okI, unfold assms(1-3))
    fix c u p
    assume "em_conns (f e) c = Some (u, p)"
    then have "em_conns e c = Some (u, p)" using assms(4) [of e] by (metis domI map_le_def)
    then show "counter_of (em_heap e) u p" by (rule emb_ok_conn [OF e])
  qed (fact emb_okD(1) [OF e], fact emb_okD(3) [OF e], erule emb_okD(4) [OF e], erule emb_ok_counter [OF e])
qed (rule pending_same; simp add: assms)

lemma keeps_no_users: "keeps (\<lambda>e. e\<lparr>em_users := Map.empty\<rparr>)"
proof (rule keepsI)
  fix e :: "'t embedded"
  assume e: "emb_ok e"
  then show "emb_ok (e\<lparr>em_users := Map.empty\<rparr>)" by (simp add: emb_ok_def counter_of_def)
qed (rule pending_same; simp)

lemma keeps_rebuild: "keeps (\<lambda>e. fst (snd (rebuildUserHashesLocked K it e w)))"
  by (rule keeps_same) (auto simp: rebuildUserHashesLocked_def split: prod.splits sum.splits)

lemma keeps_replace: "keeps (\<lambda>e. fst (snd (replaceUsersLocked K it users e w)))"
  unfolding replaceUsersLocked_def
  by (rule keeps_comp [OF keeps_rebuild keeps_comp [OF keeps_user_ops(3) keeps_comp [OF keeps_fold [OF keeps_user_ops(1)] keeps_no_users]]])

lemma keeps_UpdateUsers: "keeps (\<lambda>e. fst (snd (UpdateUsers K it added deleted modified full e w)))"
proof (cases full)
  case None
  have "keeps (\<lambda>e. fst (snd (rebuildUserHashesLocked K it
      (fold upsertUserLocked modified (fold upsertUserLocked added (fold deleteUserLocked deleted e))) w)))"
    by (rule keeps_comp [OF keeps_rebuild keeps_comp [OF keeps_fold [OF keeps_user_ops(1)]
        keeps_comp [OF keeps_fold [OF keeps_user_ops(1)] keeps_fold [OF keeps_user_ops(2)]]]])
  then show ?thesis by (simp add: UpdateUsers_def None)
next
  case (Some users)
  then show ?thesis by (simp add: UpdateUsers_def keeps_replace)
qed

lemma keeps_simple:
  "keeps (SetAliveList alive)" "keeps (\<lambda>e. snd (GetOnlineDevice it now e))" "keeps (markOffline u now)"
  "keeps (registerConn c)" "keeps (unregisterConn c)" "keeps (\<lambda>e. snd (Close e))" "keeps (\<lambda>e. snd (Start l e))"
  by (rule keeps_same; auto simp: SetAliveList_def GetOnlineDevice_def Let_def markOffline_def registerConn_def
      unregisterConn_def Close_def Start_def map_le_def split: option.splits)+

section \<open>The embedded engine keeps the server's contract\<close>

lemma keeps_sudoku: "keeps (\<lambda>e. snd (handleSudokuConn c shake fb remote now msgs e))"
proof (rule keepsI)
  fix e :: "'t embedded" and d u
  assume e: "emb_ok e"
  let ?h = "case shake of HandshakeDone meta \<Rightarrow> deref_or '''' meta | _ \<Rightarrow> ''''"
  obtain r e1 where r: "counterForUserHash ?h remote now e = (r, e1)" by fastforce
  have c: "emb_ok e1 \<and> pending_of d v e1 = pending_of d v e \<and>
      (\<forall>uuid p. r = Some (uuid, p) \<longrightarrow> counter_of (em_heap e1) uuid p)" for d v
  proof (cases r)
    case None
    then show ?thesis using r e by (auto simp: counterForUserHash_def Let_def split: if_splits)
  next
    case (Some q)
    obtain uuid p where q: "q = (uuid, p)" by (cases q)
    let ?e = "claimCounter (ui_Id (zero_of zeroUser (em_users e) uuid)) uuid e"
    have uuid: "uuid \<noteq> ''''" and p: "p = the (em_counters ?e uuid)" and e1: "\<exists>on. e1 = ?e\<lparr>em_online := on\<rparr>"
      using r Some q by (auto simp: counterForUserHash_def Let_def split: if_splits)
    note C = claimCounter_ok [OF e uuid, where i = "ui_Id (zero_of zeroUser (em_users e) uuid)"]
    have "em_counters ?e uuid = Some p" using C(3) p by auto
    then have "counter_of (em_heap ?e) uuid p" using emb_ok_counter [OF C(1)] by blast
    moreover obtain on where on: "e1 = ?e\<lparr>em_online := on\<rparr>" using e1 by blast
    moreover have "emb_ok (?e\<lparr>em_online := on\<rparr>)" using C(1) by (simp add: emb_ok_def)
    moreover have "pending_of d v (?e\<lparr>em_online := on\<rparr>) = pending_of d v e"
      using C(2) pending_same [of "?e\<lparr>em_online := on\<rparr>" v ?e d] by simp
    ultimately show ?thesis using Some q by simp
  qed
  have res: "snd (handleSudokuConn c shake fb remote now msgs e) =
    (case shake of HandshakeDone meta \<Rightarrow>
       (case r of None \<Rightarrow> e1 | Some x \<Rightarrow> e1\<lparr>em_conns := (em_conns e1)(c \<mapsto> x)\<rparr>) | _ \<Rightarrow> e)"
    using r by (auto simp: handleSudokuConn_def Let_def split: handshake.split option.split prod.split)
  have "emb_ok (e1\<lparr>em_conns := (em_conns e1)(c \<mapsto> x)\<rparr>)" if "r = Some x" for x
    using c that by (cases x) (auto simp: emb_ok_def)
  moreover have "pending_of d v (e1\<lparr>em_conns := m\<rparr>) = pending_of d v e" for m v
    using c pending_same [of "e1\<lparr>em_conns := m\<rparr>" v e1 d] by simp
  ultimately show "emb_ok (snd (handleSudokuConn c shake fb remote now msgs e))"
    "pending_of d u (snd (handleSudokuConn c shake fb remote now msgs e)) = pending_of d u e"
    using c e unfolding res by (auto split: handshake.split option.split)
qed

text \<open>Every other operation of the engine, with what it is given.\<close>

datatype 'sc emb_op =
    UpdateOp "'sc keyenv" "string iter" "UserInfo list" "UserInfo list" "UserInfo list" "UserInfo list option" os
  | AliveOp "int \<rightharpoonup> int"
  | OnlineOp "string iter" int64
  | RegisterOp nat
  | SudokuOp nat handshake bool "string option" int64 "kip list"
  | OfflineOp string int64
  | UnregisterOp nat
  | CloseOp

primrec emb_other :: "'sc emb_op \<Rightarrow> 't embedded \<Rightarrow> 't embedded" where
  "emb_other (UpdateOp K it added deleted modified full w) e =
     fst (snd (UpdateUsers K it added deleted modified full e w))"
| "emb_other (AliveOp alive) e = SetAliveList alive e"
| "emb_other (OnlineOp it now) e = snd (GetOnlineDevice it now e)"
| "emb_other (RegisterOp c) e = registerConn c e"
| "emb_other (SudokuOp c shake fb remote now msgs) e = snd (handleSudokuConn c shake fb remote now msgs e)"
| "emb_other (OfflineOp uuid now) e = markOffline uuid now e"
| "emb_other (UnregisterOp c) e = unregisterConn c e"
| "emb_other CloseOp e = snd (Close e)"

lemma keeps_other: "keeps (emb_other x)"
proof (rule keepsI)
  fix e :: "'t embedded" and d u
  assume "emb_ok e"
  then show "emb_ok (emb_other x e)" "pending_of d u (emb_other x e) = pending_of d u e"
    by (cases x; simp add: keepsD [OF keeps_UpdateUsers] keepsD [OF keeps_sudoku] keepsD [OF keeps_simple(1)]
      keepsD [OF keeps_simple(2)] keepsD [OF keeps_simple(3)] keepsD [OF keeps_simple(4)]
      keepsD [OF keeps_simple(5)] keepsD [OF keeps_simple(6)])+
qed

lemma trafficEntry_SomeD:
  assumes "trafficEntry m e u = Some t"
  shows "ut_UUID t = u" "ut_Upload t = pending_of Up u e" "ut_Download t = pending_of Down u e"
    "\<exists>x. em_users e u = Some x \<and> ui_Id x = ut_UID t \<and> ui_Id x \<noteq> 0" "u \<in> dom (em_counters e)"
    "overThreshold m (ut_Upload t) (ut_Download t)"
  using assms by (auto simp: trafficEntry_def pending_of_def snapshot_def split: option.splits if_splits)

lemma set_map_filter: "set (List.map_filter f xs) = {y. \<exists>x \<in> set xs. f x = Some y}"
  by (induction xs) (auto simp: List.map_filter_simps split: option.splits)

lemma distinct_map_filter:
  "distinct xs \<Longrightarrow> (\<And>x y. f x = Some y \<Longrightarrow> g y = x) \<Longrightarrow> distinct (map g (List.map_filter f xs))"
  by (induction xs) (auto simp: List.map_filter_simps set_map_filter split: option.splits)

lemma slice_entries:
  "t \<in> set (GetUserTrafficSlice it m e) \<Longrightarrow> finite (dom (em_counters e)) \<Longrightarrow> trafficEntry m e (ut_UUID t) = Some t"
  using trafficEntry_SomeD(1) by (auto simp: GetUserTrafficSlice_def set_map_filter)

lemma slice_known:
  "t \<in> set (GetUserTrafficSlice it m e) \<Longrightarrow> finite (dom (em_counters e)) \<Longrightarrow> em_users e (ut_UUID t) \<noteq> None"
  using slice_entries trafficEntry_SomeD(4) by fastforce

lemma confirmOne_ok:
  assumes "emb_ok e" and "proper_traffic t"
  shows "emb_ok (confirmOne it t e)"
    and "pending_of d u (confirmOne it t e) =
      (if ut_UUID t = u then max 0 (pending_of d u e - traffic_of d t) else pending_of d u e)"
proof -
  have t: "ut_UUID t \<noteq> ''''" "is_count (ut_Upload t)" "is_count (ut_Download t)"
    using assms(2) by (simp_all add: proper_traffic_def)
  have "emb_ok (confirmOne it t e) \<and> pending_of d u (confirmOne it t e) =
      (if ut_UUID t = u then max 0 (pending_of d u e - traffic_of d t) else pending_of d u e)"
  proof (cases "em_counters e (ut_UUID t)")
    case None
    then show ?thesis
      using t assms(1) proper_traffic_nonneg [OF assms(2), of d] by (auto simp: confirmOne_def pending_of_def max_def)
  next
    case (Some p)
    let ?k = "subtract (ut_Upload t) (ut_Download t) (em_heap e ! p)"
    have ok: "counter_ok (em_heap e ! p)" using emb_ok_counter [OF assms(1) Some] by blast
    then have "counter_ok ?k" using t by (simp add: counter_ok_def is_count_settle)
    then have "emb_ok (e\<lparr>em_heap := (em_heap e)[p := ?k]\<rparr>)"
      by (intro heap_update_ok [OF assms(1)]) simp_all
    moreover have "pick d (tc_up ?k) (tc_down ?k) = max 0 (pick d (tc_up (em_heap e ! p)) (tc_down (em_heap e ! p)) - traffic_of d t)"
      using t ok by (cases d) (simp_all add: settle_count counter_ok_def)
    ultimately show ?thesis
      using heap_update_pending [OF assms(1) Some, of d u ?k] t(1) Some
      by (auto simp: confirmOne_def pending_of_def)
  qed
  then show "emb_ok (confirmOne it t e)" "pending_of d u (confirmOne it t e) =
      (if ut_UUID t = u then max 0 (pending_of d u e - traffic_of d t) else pending_of d u e)"
    by (rule conjunct1, rule conjunct2)
qed

lemma confirm_ok:
  assumes "emb_ok e" and "\<And>t. t \<in> set ts \<Longrightarrow> proper_traffic t" and "0 \<le> pending_of d u e"
  shows "emb_ok (ConfirmUserTraffic it ts e) \<and>
    pending_of d u (ConfirmUserTraffic it ts e) = max 0 (pending_of d u e - reported d u ts)"
  using assms
proof (induction ts arbitrary: e)
  case (Cons t ts)
  have t: "proper_traffic t" using Cons.prems by simp
  note C = confirmOne_ok [OF Cons.prems(1) t]
  have "0 \<le> pending_of d u (confirmOne it t e)" using Cons.prems(3) C(2) [of d u it] by simp
  then have "emb_ok (ConfirmUserTraffic it ts (confirmOne it t e)) \<and>
      pending_of d u (ConfirmUserTraffic it ts (confirmOne it t e)) =
      max 0 (pending_of d u (confirmOne it t e) - reported d u ts)"
    using Cons.prems(2) C(1) by (intro Cons.IH) simp_all
  moreover have "0 \<le> reported d u ts" using Cons.prems(2) by (intro reported_nonneg) simp
  ultimately show ?case
    using C(2) [of d u it] by (auto simp: ConfirmUserTraffic_def max_def)
qed (simp add: ConfirmUserTraffic_def)

text \<open>What a connection's traffic does to its counter.\<close>

definition moved :: "int \<Rightarrow> int \<Rightarrow> trafficCounter \<Rightarrow> trafficCounter" where
  "moved up down k = addDownload down (addUpload up k)"

lemma connMove_moved:
  "0 \<le> a \<Longrightarrow> 0 \<le> b \<Longrightarrow> connMove c a b e =
    (case em_conns e c of None \<Rightarrow> e
     | Some (_, p) \<Rightarrow> e\<lparr>em_heap := (em_heap e)[p := moved a b (em_heap e ! p)]\<rparr>)"
  by (auto simp: connMove_def moved_def conn_Read_def conn_Write_def addUpload_def addDownload_def
      split: option.split prod.split)

lemma connMove_ok:
  assumes e: "emb_ok e" and ab: "0 \<le> a" "0 \<le> b"
    and room: "\<And>u. ownerConn c e = Some u \<Longrightarrow> is_count (pending_of Up u e + a) \<and> is_count (pending_of Down u e + b)"
  shows "emb_ok (connMove c a b e)"
    and "pending_of d v (connMove c a b e) =
      pending_of d v e + (if ownerConn c e = Some v then pick d a b else 0)"
proof -
  have "emb_ok (connMove c a b e) \<and> pending_of d v (connMove c a b e) =
      pending_of d v e + (if ownerConn c e = Some v then pick d a b else 0)"
  proof (cases "em_conns e c")
    case None
    then show ?thesis using e by (simp add: connMove_moved [OF ab] ownerConn_def)
  next
    case (Some q)
    obtain u p where q: "em_conns e c = Some (u, p)" using Some by (cases q) auto
    let ?k = "moved a b (em_heap e ! p)"
    have cu: "counter_of (em_heap e) u p" by (rule emb_ok_conn [OF e q])
    have E: "connMove c a b e = e\<lparr>em_heap := (em_heap e)[p := ?k]\<rparr>" by (simp add: connMove_moved [OF ab] q)
    show ?thesis
    proof (cases "em_counters e u = Some p")
      case False
      have out: "em_counters e v \<noteq> Some p" for v
        using False emb_ok_counter [OF e, of v p] cu by (auto simp: counter_of_def)
      then have "emb_ok (e\<lparr>em_heap := (em_heap e)[p := ?k]\<rparr>)"
        by (intro heap_update_ok [OF e]) (simp_all add: moved_def)
      moreover have "pending_of d v (e\<lparr>em_heap := (em_heap e)[p := ?k]\<rparr>) = pending_of d v e"
        using out [of v] by (auto simp: pending_of_def nth_list_update split: option.split)
      ultimately show ?thesis using False by (simp add: E ownerConn_def q)
    next
      case True
      have owner: "ownerConn c e = Some u" by (simp add: ownerConn_def q True)
      have ok: "counter_ok (em_heap e ! p)" using emb_ok_counter [OF e True] by blast
      have r: "is_count (tc_up (em_heap e ! p) + a)" "is_count (tc_down (em_heap e ! p) + b)"
        using room [OF owner] True by (simp_all add: pending_of_def)
      then have k: "tc_up ?k = tc_up (em_heap e ! p) + a" "tc_down ?k = tc_down (em_heap e ! p) + b"
        using ab by (simp_all add: moved_def)
      then have "emb_ok (e\<lparr>em_heap := (em_heap e)[p := ?k]\<rparr>)"
        using r by (intro heap_update_ok [OF e]) (simp_all add: moved_def counter_ok_def)
      then show ?thesis
        using heap_update_pending [OF e True, of d v ?k] k True
        by (cases d) (auto simp: E owner pending_of_def)
    qed
  qed
  then show "emb_ok (connMove c a b e)" "pending_of d v (connMove c a b e) =
      pending_of d v e + (if ownerConn c e = Some v then pick d a b else 0)"
    by (rule conjunct1, rule conjunct2)
qed

interpretation embedded_server: traffic_server emb_ok "GetUserTrafficSlice it" "ConfirmUserTraffic it'"
  connMove emb_other ownerConn pending_of for it it'
proof unfold_locales
  fix e :: "'t embedded" and d u
  assume e: "emb_ok e"
  show c: "is_count (pending_of d u e)"
    using emb_ok_counter [OF e, of u] by (cases d) (auto simp: pending_of_def counter_ok_def split: option.split)
  fix t m it
  assume "t \<in> set (GetUserTrafficSlice it m e)"
  then have t: "trafficEntry m e (ut_UUID t) = Some t" using slice_entries emb_okD(1) [OF e] by blast
  then show "traffic_of d t = pending_of d (ut_UUID t) e"
    by (cases d) (simp_all add: trafficEntry_SomeD(2,3) [OF t, symmetric])
  show "ut_UUID t \<noteq> ''''" using trafficEntry_SomeD(5) [OF t] emb_ok_counter [OF e] by blast
next
  fix e :: "'t embedded" and m it
  show "distinct (map ut_UUID (GetUserTrafficSlice it m e))"
    by (auto simp: GetUserTrafficSlice_def intro!: distinct_map_filter trafficEntry_SomeD(1))
next
  fix e :: "'t embedded" and ts it' d u
  assume e: "emb_ok e" and ts: "\<And>t. t \<in> set ts \<Longrightarrow> proper_traffic t"
  have "0 \<le> pending_of d u e" for d u
    using emb_ok_counter [OF e, of u] by (cases d) (auto simp: pending_of_def counter_ok_def is_count_def split: option.split)
  then show "emb_ok (ConfirmUserTraffic it' ts e)"
    "pending_of d u (ConfirmUserTraffic it' ts e) = max 0 (pending_of d u e - reported d u ts)"
    using confirm_ok [OF e ts] by blast+
qed (simp_all add: connMove_ok keepsD [OF keeps_other])

section \<open>Users\<close>

lemma claim_frame [simp]:
  "em_users (claimCounter i u e) = em_users e" "em_userHashToUUID (claimCounter i u e) = em_userHashToUUID e"
  "em_node (claimCounter i u e) = em_node e" "em_online (claimCounter i u e) = em_online e"
  "em_conns (claimCounter i u e) = em_conns e" "em_keyStore (claimCounter i u e) = em_keyStore e"
  by (simp_all add: claimCounter_def split: option.split)

lemma users_upsert: "em_users (fold upsertUserLocked xs e) = enroll xs (em_users e)"
  by (induction xs arbitrary: e) (simp_all add: upsertUserLocked_def)

lemma users_delete: "em_users (fold deleteUserLocked xs e) = expel xs (em_users e)"
  by (induction xs arbitrary: e) (simp_all add: deleteUserLocked_def)

definition updated_users ::
  "UserInfo list \<Rightarrow> UserInfo list \<Rightarrow> UserInfo list \<Rightarrow> UserInfo list option \<Rightarrow> (string \<rightharpoonup> UserInfo) \<Rightarrow> string \<rightharpoonup> UserInfo"
where
  "updated_users added deleted modified full m =
     (case full of Some users \<Rightarrow> enroll users Map.empty
      | None \<Rightarrow> enroll modified (enroll added (expel deleted m)))"

lemma users_rebuild [simp]: "em_users (fst (snd (rebuildUserHashesLocked K it e w))) = em_users e"
  by (simp add: rebuildUserHashesLocked_def split: prod.split sum.split)

lemma users_update:
  assumes "UpdateUsers K it added deleted modified full e w = (r, e', w')"
  shows "em_users e' = updated_users added deleted modified full (em_users e)"
proof -
  have "e' = fst (snd (UpdateUsers K it added deleted modified full e w))" using assms by simp
  then show ?thesis
    by (simp add: UpdateUsers_def replaceUsersLocked_def updated_users_def users_upsert users_delete
        pruneCounters_def split: option.split)
qed

definition removed_by ::
  "string \<Rightarrow> UserInfo list \<Rightarrow> UserInfo list \<Rightarrow> UserInfo list \<Rightarrow> UserInfo list option \<Rightarrow> bool"
where
  "removed_by u added deleted modified full \<longleftrightarrow>
     (case full of Some users \<Rightarrow> u \<notin> ui_Uuid ` set users
      | None \<Rightarrow> u \<in> ui_Uuid ` set deleted \<and> u \<notin> ui_Uuid ` set added \<and> u \<notin> ui_Uuid ` set modified)"

lemma removed_absent: "removed_by u added deleted modified full \<Longrightarrow> updated_users added deleted modified full m u = None"
  by (auto simp: removed_by_def updated_users_def enroll_other expel_apply split: option.splits)


definition served :: "action list \<Rightarrow> bool" where
  "served acts \<longleftrightarrow> (\<exists>a \<in> set acts. case a of AccessLog _ _ _ _ _ \<Rightarrow> True | ServeUoT \<Rightarrow> True | ServeMux \<Rightarrow> True
     | ServeTCP _ \<Rightarrow> True | MarkOffline _ \<Rightarrow> True | _ \<Rightarrow> False)"

text \<open>Every access is logged under the given user id.\<close>

definition logged_as :: "int \<Rightarrow> action list \<Rightarrow> bool" where
  "logged_as uid acts = list_all (\<lambda>a. case a of AccessLog _ i _ _ _ \<Rightarrow> i = uid | _ \<Rightarrow> True) acts"

lemma served_login:
  assumes "emb_ok e" and "handleSudokuConn c shake fallback remote now msgs e = (acts, e')" and "served acts"
  shows "\<exists>userHash uuid user. shake = HandshakeDone userHash \<and>
    em_userHashToUUID e (deref_or '''' userHash) = Some uuid \<and> em_users e uuid = Some user \<and> ui_Id user \<noteq> 0 \<and>
    em_online e' uuid = Some \<lparr>on_seenAt = now, on_ip = clientIP (addrString remote)\<rparr> \<and>
    ownerConn c e' = Some uuid \<and>
    logged_as (ui_Id user) acts"
proof -
  obtain h where h: "shake = HandshakeDone h"
    using assms(2,3) by (cases shake) (auto simp: handleSudokuConn_def served_def split: if_splits)
  let ?uuid = "zero_of '''' (em_userHashToUUID e) (deref_or '''' h)"
  let ?user = "zero_of zeroUser (em_users e) ?uuid"
  have some: "?uuid \<noteq> ''''" "ui_Id ?user \<noteq> 0"
    using assms(2,3) by (auto simp: h handleSudokuConn_def counterForUserHash_def served_def Let_def split: if_splits)
  then obtain uuid user where uu: "em_userHashToUUID e (deref_or '''' h) = Some uuid" "em_users e uuid = Some user"
    by (auto simp: zero_of_def zeroUser_def split: option.splits)
  then have z: "?uuid = uuid" "?user = user" by simp_all
  let ?e1 = "claimCounter (ui_Id user) uuid e"
  have ne: "uuid \<noteq> ''''" using some z by simp
  note C = claimCounter_ok [OF assms(1) ne, where i = "ui_Id user"]
  obtain p where p: "em_counters ?e1 uuid = Some p" using C(3) by auto
  have uid: "tc_uid (em_heap ?e1 ! p) = ui_Id user"
    using p emb_okD(6) [OF assms(1)] by (auto simp: claimCounter_def newCounter_def split: option.splits)
  let ?e2 = "?e1\<lparr>em_online := (em_online e)(uuid \<mapsto> \<lparr>on_seenAt = now, on_ip = clientIP (addrString remote)\<rparr>),
      em_conns := (em_conns e)(c \<mapsto> (uuid, p))\<rparr>"
  have cf: "counterForUserHash (deref_or '''' h) remote now e = (Some (uuid, p),
      ?e1\<lparr>em_online := (em_online e)(uuid \<mapsto> \<lparr>on_seenAt = now, on_ip = clientIP (addrString remote)\<rparr>)\<rparr>)"
    using some z p by (simp add: counterForUserHash_def)
  have "e' = ?e2 \<and> logged_as (ui_Id user) acts"
  proof (cases "readFirstControl msgs")
    case None
    then show ?thesis using assms(2) cf by (auto simp: h handleSudokuConn_def Let_def logged_as_def)
  next
    case (Some msg)
    obtain a r where a: "serve (ni_Id (em_node e)) (ui_Id user) (clientIP (addrString remote)) msg = (a, r)"
      by (cases "serve (ni_Id (em_node e)) (ui_Id user) (clientIP (addrString remote)) msg")
    then have "logged_as (ui_Id user) a"
      by (auto simp: logged_as_def serve_def split: control.splits option.splits if_splits)
    then show ?thesis using assms(2) cf Some a uid by (auto simp: h handleSudokuConn_def Let_def logged_as_def split: if_splits)
  qed
  then have e': "e' = ?e2"
    and "logged_as (ui_Id user) acts"
    by (rule conjunct1, rule conjunct2)
  note this(2)
  moreover have "ownerConn c e' = Some uuid" using p by (simp add: e' ownerConn_def)
  moreover have "em_online e' uuid = Some \<lparr>on_seenAt = now, on_ip = clientIP (addrString remote)\<rparr>" by (simp add: e')
  ultimately show ?thesis using h uu some z by blast
qed

text \<open>
  C3. Nobody is served without logging in: if a handler logs an access, relays anything or
  reaches its end, the handshake succeeded with a user hash that maps to a known user with a
  nonzero id, that user is marked online now under the client's address, the connection
  counts to that user's own counter, and the access is logged under that user's id.
\<close>

theorem served_only_after_login:
  assumes "emb_ok e" and "handleSudokuConn c shake fallback remote now msgs e = (acts, e')" and "served acts"
  shows "\<exists>userHash uuid user. shake = HandshakeDone userHash \<and>
    em_userHashToUUID e (deref_or '''' userHash) = Some uuid \<and> em_users e uuid = Some user \<and> ui_Id user \<noteq> 0 \<and>
    em_online e' uuid = Some \<lparr>on_seenAt = now, on_ip = clientIP (addrString remote)\<rparr> \<and>
    ownerConn c e' = Some uuid \<and>
    logged_as (ui_Id user) acts"
  using assms by (rule served_login)

section \<open>Hashes\<close>

lemma hashTable_snoc:
  "hashTable (ks @ [k]) = (if uk_UserHash k \<noteq> '''' \<and> uk_UUID k \<noteq> '''' then (hashTable ks)(uk_UserHash k \<mapsto> uk_UUID k)
     else hashTable ks)"
  by (simp add: hashTable_def)

lemma hashTable_Some:
  "hashTable ks h = Some u \<Longrightarrow> u \<noteq> '''' \<and> (\<exists>k \<in> set ks. uk_UserHash k = h \<and> uk_UUID k = u)"
  by (induction ks rule: rev_induct) (auto simp: hashTable_snoc hashTable_def split: if_splits)

lemma userHashHex_nonempty [simp]: "userHashHex k \<noteq> ''''"
proof -
  have "length (userHashHex k) = 16" unfolding userHashHex_def using sha256.hex_prefix_size [of 8] by simp
  then show ?thesis by auto
qed

lemma hashTable_complete:
  assumes "k \<in> set ks" and "uk_UserHash k \<noteq> ''''" and "uk_UUID k \<noteq> ''''"
  shows "uk_UserHash k \<in> dom (hashTable ks)"
  using assms by (induction ks rule: rev_induct) (auto simp: hashTable_snoc)

lemma set_listUsers: "finite (dom m) \<Longrightarrow> set (listUsers it m) = ran m"
  by (auto simp: listUsers_def ran_def image_iff) (metis domI option.sel)

lemma BuildMappings_entries:
  assumes "BuildMappings K node users s w = (Inr out, s', w')" and "e \<in> set out"
  shows "\<exists>u \<in> set users. \<exists>key. key \<noteq> '''' \<and> e = keyEntry u key"
proof -
  obtain s1 es ch w2 where
    "buildLoop K node (normalizedClientKeySource (rc_ClientKeySource (ks_cfg s))) users [] False s1 w
      = (Inr (es, ch), s', w2)" and out: "out = sort_slice uk_UID es"
    using assms by (elim BuildMappings_InrD)
  from buildLoop_entries [OF this(1)] assms(2) show ?thesis by (auto simp: out entry_of_def)
qed

lemma rebuild_None:
  assumes "rebuildUserHashesLocked K it e w = (None, e', w')"
  obtains keys ks where "BuildMappings K (em_node e) (listUsers it (em_users e)) (em_keyStore e) w = (Inr keys, ks, w')"
    "e' = e\<lparr>em_keyStore := ks, em_userHashToUUID := hashTable keys\<rparr>"
  using assms by (auto simp: rebuildUserHashesLocked_def split: prod.splits sum.splits)

text \<open>
  C14. After a successful \<open>UpdateUsers\<close> the hash table is the users' own: every user hash maps
  to the UUID of a user that is in the table now, and is the hash of a nonblank key made for
  that user in this rebuild; nothing of the table before is left.
\<close>

theorem hashes_are_current:
  assumes "UpdateUsers K it added deleted modified full e w = (None, e', w')" and "emb_ok e"
    and "em_userHashToUUID e' userHash = Some uuid"
  shows "\<exists>user key. em_users e' uuid = Some user \<and> ui_Uuid user = uuid \<and> key \<noteq> '''' \<and> userHash = userHashHex key"
proof -
  have "emb_ok (fst (snd (UpdateUsers K it added deleted modified full e w)))"
    by (rule keepsD(1) [OF keeps_UpdateUsers assms(2)])
  then have ok: "emb_ok e'" using assms(1) by simp
  obtain e0 where r: "rebuildUserHashesLocked K it e0 w = (None, e', w')"
    using assms(1) by (auto simp: UpdateUsers_def replaceUsersLocked_def split: option.splits)
  obtain keys ks where b: "BuildMappings K (em_node e0) (listUsers it (em_users e0)) (em_keyStore e0) w = (Inr keys, ks, w')"
    and e': "e' = e0\<lparr>em_keyStore := ks, em_userHashToUUID := hashTable keys\<rparr>"
    by (rule rebuild_None [OF r])
  obtain k where k: "k \<in> set keys" "uk_UserHash k = userHash" "uk_UUID k = uuid"
    using hashTable_Some [of keys userHash uuid] assms(3) e' by auto
  obtain x key where x: "x \<in> set (listUsers it (em_users e0))" "key \<noteq> ''''" "k = keyEntry x key"
    using BuildMappings_entries [OF b k(1)] by blast
  have fin: "finite (dom (em_users e0))" using emb_okD(2) [OF ok] by (simp add: e')
  obtain v where v: "em_users e' v = Some x" using x(1) by (auto simp: set_listUsers [OF fin] ran_def e')
  have "ui_Uuid x = v" using emb_okD(4) [OF ok v] .
  moreover have "uuid = ui_Uuid x" "userHash = userHashHex key" using k x(3) by (simp_all add: keyEntry_def)
  ultimately show ?thesis using v x(2) by auto
qed

text \<open>
  C18. The report holds exactly the users with traffic over the threshold, each once with all
  it has pending, in order of their ids: a user with id 0, or with no more than the minimum,
  is left out.
\<close>

theorem report_slice:
  assumes "emb_ok e"
  shows "sorted (map ut_UID (GetUserTrafficSlice it reportMin e)) \<and>
    distinct (map ut_UUID (GetUserTrafficSlice it reportMin e)) \<and>
    set (GetUserTrafficSlice it reportMin e) =
      {t. \<exists>user. em_users e (ut_UUID t) = Some user \<and> ut_UID t = ui_Id user \<and> ui_Id user \<noteq> 0 \<and>
        ut_Upload t = pending_of Up (ut_UUID t) e \<and> ut_Download t = pending_of Down (ut_UUID t) e \<and>
        overThreshold reportMin (ut_Upload t) (ut_Download t)}"
    (is "_ \<and> _ \<and> ?L = ?R")
proof -
  have "t \<in> ?R" if "t \<in> ?L" for t
  proof -
    have "trafficEntry reportMin e (ut_UUID t) = Some t" using slice_entries [OF that] emb_okD(1) [OF assms] .
    from trafficEntry_SomeD [OF this] show ?thesis by auto
  qed
  moreover have "t \<in> ?L" if "t \<in> ?R" for t
  proof -
    from that obtain user where u: "em_users e (ut_UUID t) = Some user" "ut_UID t = ui_Id user" "ui_Id user \<noteq> 0"
      "ut_Upload t = pending_of Up (ut_UUID t) e" "ut_Download t = pending_of Down (ut_UUID t) e"
      "overThreshold reportMin (ut_Upload t) (ut_Download t)" by auto
    obtain p where p: "em_counters e (ut_UUID t) = Some p" using u(1) emb_okD(3) [OF assms] by auto
    have "trafficEntry reportMin e (ut_UUID t) = Some t"
      using u p by (simp add: trafficEntry_def pending_of_def snapshot_def)
    then show ?thesis
      using p emb_okD(1) [OF assms] by (auto simp: GetUserTrafficSlice_def set_map_filter intro!: bexI [of _ "ut_UUID t"])
  qed
  ultimately show ?thesis
    using embedded_server.gather_once [OF assms] by (auto simp: GetUserTrafficSlice_def)
qed

section \<open>A sample engine\<close>

definition sampleEngine :: "unit embedded" where
  "sampleEngine = \<lparr>em_node = sample_node, em_runtime = autoConfig 1,
     em_keyStore = sampleStore (Some [''1'' \<mapsto> ''k0'']), em_users = [''a'' \<mapsto> sampleUser 1 ''a''],
     em_userHashToUUID = [userHashHex ''k0'' \<mapsto> ''a''], em_counters = [''a'' \<mapsto> 0],
     em_heap = [newCounter 1 ''a''], em_online = Map.empty, em_aliveList = Map.empty,
     em_cfg = draftConfig ''pub-ab'' sample_node (autoConfig 1), em_tables = [()], em_listening = False,
     em_active = {}, em_closed = False, em_conns = Map.empty\<rparr>"

lemma sampleEngine_fields [simp]:
  "em_node sampleEngine = sample_node" "em_users sampleEngine = [''a'' \<mapsto> sampleUser 1 ''a'']"
  "em_userHashToUUID sampleEngine = [userHashHex ''k0'' \<mapsto> ''a'']" "em_counters sampleEngine = [''a'' \<mapsto> 0]"
  "em_heap sampleEngine = [newCounter 1 ''a'']" "em_online sampleEngine = Map.empty"
  "em_keyStore sampleEngine = sampleStore (Some [''1'' \<mapsto> ''k0''])" "em_active sampleEngine = {}"
  "em_conns sampleEngine = Map.empty" "em_closed sampleEngine = False"
  by (simp_all add: sampleEngine_def)

lemma sampleEngine_ok: "emb_ok sampleEngine"
  by (rule emb_okI) (auto simp: counter_of_def newCounter_def counter_ok_def split: if_splits)

lemma plainEnv_tables: "ce_BuildTables plainEnv sc = Some [()]"
  by (simp add: plainEnv_def)

lemma sample_NewEmbedded:
  "NewEmbedded plainEnv sampleEnv it sample_node [sampleUser 1 ''a''] Map.empty (autoConfig 1) (sampleStore None) emptyOS =
     (Inr sampleEngine, sampleStore (Some [''1'' \<mapsto> ''k0'']), savedOS)"
  by (simp add: NewEmbedded_def sample_config plainEnv_tables replaceUsersLocked_def upsertUserLocked_def
      emptyEmbedded_def claimCounter_def pruneCounters_def rebuildUserHashesLocked_def listUsers_def sample_build
      sampleEngine_def hashTable_def keyEntry_def idle_def fun_eq_iff)

section \<open>The books of the engine\<close>

lemma emptyEmbedded_ok: "emb_ok (emptyEmbedded node alive cfg ks sc tables)"
  and emptyEmbedded_pending: "pending_of d u (emptyEmbedded node alive cfg ks sc tables) = 0"
  by (rule emb_okI) (simp_all add: emptyEmbedded_def pending_of_def)

lemma NewEmbedded_ok:
  assumes "NewEmbedded E K it node users alive cfg keyStore w = (Inr e, ks, w')"
  shows "emb_ok e" and "pending_of d u e = 0"
proof -
  obtain sc tables where "replaceUsersLocked K it users (emptyEmbedded node alive cfg keyStore sc tables) w = (None, e, w')"
    using assms by (auto simp: NewEmbedded_def split: sum.splits option.splits prod.splits)
  then have e: "e = fst (snd (replaceUsersLocked K it users (emptyEmbedded node alive cfg keyStore sc tables) w))"
    by simp
  show "emb_ok e" "pending_of d u e = 0"
    using keepsD [OF keeps_replace [of K it users w] emptyEmbedded_ok] by (simp_all add: e emptyEmbedded_pending)
qed

text \<open>
  C2. No traffic is lost or billed twice. Start an engine and run any sequence of connection
  traffic, logins, logouts, user updates, failed and accepted reports, with more of the same
  going on while a report is on its way: what was delivered and what is still pending is, for
  every user and direction, exactly what connections with a live counter have carried.
\<close>

theorem traffic_is_conserved:
  fixes e :: "'t embedded" and session :: "(nat, 'sc emb_op) session list"
  assumes "NewEmbedded E K it node users alive cfg keyStore w = (Inr e, ks, w')"
    and "list_all no_negative (concat (map activities session))"
    and "\<And>d. total d session < 9223372036854775808"
    and "B = fold (session_step (GetUserTrafficSlice it1) (ConfirmUserTraffic it2) connMove emb_other ownerConn)
      session \<lparr>bk_server = e, bk_counted = (\<lambda>_ _. 0), bk_delivered = (\<lambda>_ _. 0)\<rparr>"
  shows "pending_of d u (bk_server B) + bk_delivered B d u = bk_counted B d u \<and>
    0 \<le> pending_of d u (bk_server B) \<and> 0 \<le> bk_delivered B d u"
proof -
  note N = NewEmbedded_ok [OF assms(1)]
  have room: "pending_of d u e + total d session < 9223372036854775808" for d u
    using assms(3) [of d] N(2) by simp
  have "emb_ok (bk_server B) \<and> 0 \<le> bk_delivered B d u \<and>
      pending_of d u (bk_server B) + bk_delivered B d u = pending_of d u e + bk_counted B d u"
    by (rule embedded_server.books_balance [OF N(1) assms(2) room assms(4)])
  then show ?thesis
    using N(2) embedded_server.pending_count [of "bk_server B" d u] by (simp add: is_count_def)
qed

text \<open>A login, traffic while a refused report is under way, and an accepted report.\<close>

definition sampleSession :: "(nat, unit emb_op) session list" where
  "sampleSession =
     [Activity (Other (SudokuOp 3 (HandshakeDone (Some (userHashHex ''k0''))) True None 5 [Control StartMux])),
      Round 0 [Moved 3 700 900] False, Round 0 [] True]"

definition sampleBooks :: "unit embedded books" where
  "sampleBooks = fold (session_step (GetUserTrafficSlice sorted_list_of_set) (ConfirmUserTraffic sorted_list_of_set)
     connMove emb_other ownerConn) sampleSession
     \<lparr>bk_server = sampleEngine, bk_counted = (\<lambda>_ _. 0), bk_delivered = (\<lambda>_ _. 0)\<rparr>"

theorem traffic_is_conserved_witness:
  "pending_of Up ''a'' (bk_server sampleBooks) + bk_delivered sampleBooks Up ''a'' = bk_counted sampleBooks Up ''a''"
proof -
  have "list_all no_negative (concat (map activities sampleSession))"
    by (simp add: sampleSession_def no_negative_def volume_def)
  moreover have "total d sampleSession < 9223372036854775808" for d
    by (cases d) (simp_all add: sampleSession_def total_def volume_def)
  ultimately show ?thesis
    using traffic_is_conserved [OF sample_NewEmbedded _ _ sampleBooks_def, of Up "''a''"] by blast
qed


lemma sample_node_Id [simp]: "ni_Id sample_node = 0"
  by (simp add: sample_node_def)

lemma sample_claim [simp]: "claimCounter 1 ''a'' sampleEngine = sampleEngine"
  by (simp add: claimCounter_def newCounter_def sampleEngine_def)

lemma sample_counter:
  "counterForUserHash (userHashHex ''k0'') None now sampleEngine =
    (Some (''a'', 0), sampleEngine\<lparr>em_online := [''a'' \<mapsto> \<lparr>on_seenAt = now, on_ip = ''''\<rparr>]\<rparr>)"
  by (simp add: counterForUserHash_def clientIP_def addrString_def deref_or_def SplitHostPort_def Let_def)

lemma sample_login:
  "handleSudokuConn 3 (HandshakeDone (Some (userHashHex ''k0''))) True None 5 [KeepAlive, Control StartMux] sampleEngine =
    ([AccessLog 0 1 '''' ''mux'' ''session'', ServeMux, MarkOffline ''a''],
     sampleEngine\<lparr>em_online := [''a'' \<mapsto> \<lparr>on_seenAt = 5, on_ip = ''''\<rparr>], em_conns := [3 \<mapsto> (''a'', 0)]\<rparr>)"
  by (simp add: handleSudokuConn_def deref_or_def sample_counter serve_def orDash_def clientIP_def
      addrString_def SplitHostPort_def newCounter_def)

theorem served_only_after_login_witness:
  "\<exists>e'. ownerConn 3 e' = Some ''a'' \<and>
     snd (handleSudokuConn 3 (HandshakeDone (Some (userHashHex ''k0''))) True None 5 [KeepAlive, Control StartMux] sampleEngine) = e'"
  using served_only_after_login [OF sampleEngine_ok sample_login] sample_login by (auto simp: served_def deref_or_def)

lemma sample_update:
  "UpdateUsers sampleEnv sorted_list_of_set [] [] [] None sampleEngine savedOS = (None, sampleEngine, savedOS)"
  by (simp add: UpdateUsers_def rebuildUserHashesLocked_def listUsers_def BuildMappings_def sampleStore_def
      usesFile_def resolveKeyLocked_def storedKey_def fileUsers_def rememberKey_def sort_slice_def keyEntry_def
      hashTable_def Let_def sampleEngine_def)

theorem hashes_are_current_witness:
  "\<exists>user key. em_users sampleEngine ''a'' = Some user \<and> key \<noteq> '''' \<and> userHashHex ''k0'' = userHashHex key"
  using hashes_are_current [OF sample_update sampleEngine_ok, of "userHashHex ''k0''" "''a''"] by auto

theorem report_slice_witness:
  "distinct (map ut_UUID (GetUserTrafficSlice sorted_list_of_set 0 sampleEngine))"
  using report_slice [OF sampleEngine_ok] by blast

section \<open>Online users\<close>

text \<open>
  C19. \<open>GetOnlineDevice\<close> reports a user exactly when it is known with a nonzero id and was last
  seen no longer ago than two push intervals (two minutes when there is none), under its
  address or \<open>unknown_\<close> and the node id; every older state is forgotten, every other kept.
\<close>

theorem online_report:
  assumes "finite (dom (em_online e))" and "GetOnlineDevice it now e = (out, e')"
  shows "set out = {\<lparr>ou_UID = ui_Id user, ou_IP = onlineIP (ni_Id (em_node e)) (on_ip st)\<rparr> | uuid st user.
      em_online e uuid = Some st \<and> em_users e uuid = Some user \<and> ui_Id user \<noteq> 0 \<and>
      onlineCutoff now (ni_PushInterval (em_node e)) \<le> on_seenAt st} \<and>
    (\<forall>uuid st. em_online e' uuid = Some st \<longleftrightarrow>
      em_online e uuid = Some st \<and> onlineCutoff now (ni_PushInterval (em_node e)) \<le> on_seenAt st)"
proof -
  let ?cut = "onlineCutoff now (ni_PushInterval (em_node e))"
  have e: "onlineEntry ?cut n us on uuid = Some o' \<longleftrightarrow> (\<exists>st user. on uuid = Some st \<and> us uuid = Some user \<and>
      ui_Id user \<noteq> 0 \<and> ?cut \<le> on_seenAt st \<and> o' = \<lparr>ou_UID = ui_Id user, ou_IP = onlineIP n (on_ip st)\<rparr>)"
    for n us on uuid o'
    by (auto simp: onlineEntry_def split: option.splits)
  have "out = List.map_filter (onlineEntry ?cut (ni_Id (em_node e)) (em_users e) (em_online e)) (visit it (dom (em_online e)))"
    using assms(2) by (simp add: GetOnlineDevice_def Let_def)
  then have "set out = {o'. \<exists>uuid. onlineEntry ?cut (ni_Id (em_node e)) (em_users e) (em_online e) uuid = Some o'}"
    using assms(1) by (auto simp: set_map_filter e)
  moreover have "em_online e' = dropOld ?cut (em_online e)" using assms(2) by (auto simp: GetOnlineDevice_def Let_def)
  ultimately show ?thesis by (auto simp: e dropOld_def split: option.splits if_splits)
qed

definition onlineEngine :: "int64 \<Rightarrow> unit embedded" where
  "onlineEngine t = sampleEngine\<lparr>em_online := [''a'' \<mapsto> \<lparr>on_seenAt = t, on_ip = ''''\<rparr>], em_conns := [3 \<mapsto> (''a'', 0)]\<rparr>"

lemma sample_push [simp]: "ni_PushInterval sample_node = 0"
  by (simp add: sample_node_def)

lemma sample_online:
  "GetOnlineDevice sorted_list_of_set 9 (onlineEngine 5) = ([\<lparr>ou_UID = 1, ou_IP = ''unknown_'' @ Itoa 0\<rparr>], onlineEngine 5)"
  by (simp add: GetOnlineDevice_def onlineEngine_def onlineCutoff_def Minute_def Second_def onlineEntry_def onlineIP_def
      List.map_filter_simps dropOld_def Let_def fun_eq_iff sampleEngine_def)

theorem online_report_witness:
  "em_online (onlineEngine 5) ''a'' = Some \<lparr>on_seenAt = 5, on_ip = ''''\<rparr> \<and> onlineCutoff 9 0 \<le> 5"
proof -
  have "finite (dom (em_online (onlineEngine 5)))" by (simp add: onlineEngine_def)
  from conjunct2 [OF online_report [OF this sample_online], rule_format, of "''a''" "\<lparr>on_seenAt = 5, on_ip = ''''\<rparr>"]
  show ?thesis by (simp add: onlineEngine_def)
qed

section \<open>Traffic that is never billed\<close>


definition busyEngine :: "unit embedded" where
  "busyEngine = sampleEngine\<lparr>em_heap := [\<lparr>tc_uid = 1, tc_uuid = ''a'', tc_up = 700, tc_down = 900\<rparr>]\<rparr>"

lemma busyEngine_ok: "emb_ok busyEngine" "pending_of Up ''a'' busyEngine = 700"
  by (rule emb_okI) (auto simp: busyEngine_def counter_of_def counter_ok_def is_count_def pending_of_def split: if_splits)




section \<open>Long connections and late connections\<close>

text \<open>
  C39. A connection that lasts is not seen: the online state is only written at login and when
  the handler ends, so two push intervals after the login the next online report drops the
  user, with the connection still open and carrying traffic, and the end of the connection
  does not bring it back.
\<close>

theorem long_connection_goes_offline:
  assumes "emb_ok e" and "handleSudokuConn c shake fallback remote login msgs e = (acts, e1)" and "served acts"
    and "login < onlineCutoff now (ni_PushInterval (em_node e1))"
  shows "\<exists>uuid. ownerConn c e1 = Some uuid \<and>
    (let e2 = snd (GetOnlineDevice it now e1) in
       em_online e2 uuid = None \<and> ownerConn c e2 = Some uuid \<and> markOffline uuid later e2 = e2)"
proof -
  obtain uuid where u: "em_online e1 uuid = Some \<lparr>on_seenAt = login, on_ip = clientIP (addrString remote)\<rparr>"
    "ownerConn c e1 = Some uuid"
    using served_login [OF assms(1-3)] by blast
  then have "dropOld (onlineCutoff now (ni_PushInterval (em_node e1))) (em_online e1) uuid = None"
    using assms(4) by (simp add: dropOld_def)
  then have "em_online (snd (GetOnlineDevice it now e1)) uuid = None"
    by (simp add: GetOnlineDevice_def Let_def)
  moreover have "ownerConn c (snd (GetOnlineDevice it now e1)) = ownerConn c e1"
    by (simp add: GetOnlineDevice_def Let_def ownerConn_def split: option.split)
  ultimately show ?thesis using u(2) by (simp add: Let_def markOffline_def)
qed

theorem long_connection_goes_offline_witness:
  "\<exists>uuid. ownerConn 3 (onlineEngine 5) = Some uuid \<and>
    em_online (snd (GetOnlineDevice sorted_list_of_set 120000000006 (onlineEngine 5))) uuid = None"
  using long_connection_goes_offline [OF sampleEngine_ok sample_login, folded onlineEngine_def, of 120000000006 sorted_list_of_set]
  by (auto simp: served_def Let_def onlineCutoff_def Minute_def Second_def onlineEngine_def)



end
