(* ===== verification/External.thy ===== *)
theory External
  imports Embedded
begin

text \<open>
  \<open>internal/runtime/external.go\<close>: the engine that runs the Sudoku program as a child process.
  Traffic arrives as event lines and is kept per UUID by value; the configuration file and
  the process follow the node's configuration.

  Processes are numbered in the order they are started; \<open>ex_procs\<close> says which still run. The
  decoding of an event line is encoding/json's and is an argument; the events are a record.
\<close>

record pendingTraffic =
  pt_UID :: int
  pt_UUID :: string
  pt_Upload :: int64
  pt_Download :: int64

record external =
  ex_node :: NodeInfo
  ex_runtime :: RuntimeConfig
  ex_workDir :: string
  ex_configPath :: string
  ex_users :: "string \<rightharpoonup> UserInfo"
  ex_userHashToUUID :: "string \<rightharpoonup> string"
  ex_pending :: "string \<rightharpoonup> pendingTraffic"
  ex_online :: "string \<rightharpoonup> onlineState"
  ex_aliveList :: "int \<rightharpoonup> int"
  ex_lastConfigHash :: string
  ex_cmd :: "nat option"
  ex_keyStore :: ClientKeyStore
  ex_procs :: "bool list"

record event =
  ev_Type :: string
  ev_UserHash :: string
  ev_IP :: string
  ev_Upload :: int64
  ev_Download :: int64

datatype external_error =
    ExtConfig config_error | ExtKeys key_error | ExtMkdir os_error | ExtWrite os_error | ExtStartFailed

definition zeroPending :: pendingTraffic where
  "zeroPending = \<lparr>pt_UID = 0, pt_UUID = '''', pt_Upload = 0, pt_Download = 0\<rparr>"

section \<open>Users\<close>

text \<open>Unlike the embedded engine, this one files every hash, blank UUIDs too.\<close>

definition ext_hashTable :: "UserKey list \<Rightarrow> string \<rightharpoonup> string" where
  "ext_hashTable keys = fold (\<lambda>k m. m(uk_UserHash k \<mapsto> uk_UUID k)) keys Map.empty"

definition ext_rebuildUserHashesLocked ::
  "'sc keyenv \<Rightarrow> string iter \<Rightarrow> external \<Rightarrow> os \<Rightarrow> key_error option \<times> external \<times> os"
where
  "ext_rebuildUserHashesLocked K it e w =
     (case BuildMappings K (ex_node e) (listUsers it (ex_users e)) (ex_keyStore e) w of
        (Inl err, ks, w') \<Rightarrow> (Some err, e\<lparr>ex_keyStore := ks\<rparr>, w')
      | (Inr keys, ks, w') \<Rightarrow> (None, e\<lparr>ex_keyStore := ks, ex_userHashToUUID := ext_hashTable keys\<rparr>, w'))"

definition ext_replaceUsersLocked ::
  "'sc keyenv \<Rightarrow> string iter \<Rightarrow> UserInfo list \<Rightarrow> external \<Rightarrow> os \<Rightarrow> key_error option \<times> external \<times> os"
where
  "ext_replaceUsersLocked K it users e w =
     ext_rebuildUserHashesLocked K it (e\<lparr>ex_users := enroll users Map.empty\<rparr>) w"

definition NewExternal ::
  "'sc keyenv \<Rightarrow> string iter \<Rightarrow> NodeInfo \<Rightarrow> UserInfo list \<Rightarrow> (int \<rightharpoonup> int) \<Rightarrow> RuntimeConfig \<Rightarrow> ClientKeyStore \<Rightarrow>
   os \<Rightarrow> (key_error + external) \<times> ClientKeyStore \<times> os"
where
  "NewExternal K it node users alive cfg keyStore w =
     (let workDir = JoinPath [rc_WorkingDir cfg, ''node-'' @ Itoa (ni_Id node)];
          e = \<lparr>ex_node = node, ex_runtime = cfg, ex_workDir = workDir,
               ex_configPath = JoinPath [workDir, ''server.config.json''], ex_users = Map.empty,
               ex_userHashToUUID = Map.empty, ex_pending = Map.empty, ex_online = Map.empty,
               ex_aliveList = alive, ex_lastConfigHash = '''', ex_cmd = None, ex_keyStore = keyStore, ex_procs = []\<rparr>
      in case ext_replaceUsersLocked K it users e w of
           (Some err, e', w') \<Rightarrow> (Inl err, ex_keyStore e', w')
         | (None, e', w') \<Rightarrow> (Inr e', ex_keyStore e', w'))"

section \<open>The child process\<close>

definition running :: "external \<Rightarrow> nat \<Rightarrow> bool" where
  "running e p \<longleftrightarrow> p < length (ex_procs e) \<and> ex_procs e ! p"

text \<open>\<open>starts\<close>: whether \<open>cmd.Start\<close> succeeds.\<close>

definition startLocked :: "bool \<Rightarrow> external \<Rightarrow> external_error option \<times> external" where
  "startLocked starts e =
     (case ex_cmd e of
        Some _ \<Rightarrow> (None, e)
      | None \<Rightarrow>
          if starts then (None, e\<lparr>ex_cmd := Some (length (ex_procs e)), ex_procs := ex_procs e @ [True]\<rparr>)
          else (Some ExtStartFailed, e))"

text \<open>
  \<open>stopLocked\<close> asks the process to end, waits for \<open>cmd\<close> to become nil and kills it when five
  seconds have passed; either way the process is gone and \<open>cmd\<close> is nil. (How the wait goes is
  the subject of the step relation below.)
\<close>

definition stopLocked :: "external \<Rightarrow> external" where
  "stopLocked e =
     (case ex_cmd e of
        None \<Rightarrow> e
      | Some p \<Rightarrow> e\<lparr>ex_cmd := None, ex_procs := (ex_procs e)[p := False]\<rparr>)"

definition restartLocked :: "bool \<Rightarrow> external \<Rightarrow> external_error option \<times> external" where
  "restartLocked starts e = startLocked starts (stopLocked e)"

text \<open>The goroutine that waits for process \<open>p\<close>: when it has ended, the \<open>cmd\<close> that is still its own is cleared.\<close>

definition processExited :: "nat \<Rightarrow> external \<Rightarrow> external" where
  "processExited p e =
     e\<lparr>ex_procs := (ex_procs e)[p := False], ex_cmd := (if ex_cmd e = Some p then None else ex_cmd e)\<rparr>"

definition configHash :: "string \<Rightarrow> string" where
  "configHash body = hexEncode (Sum256 (bytes_of body))"

definition applyConfigLocked ::
  "('p, 't) cfgenv \<Rightarrow> bool \<Rightarrow> external \<Rightarrow> os \<Rightarrow> external_error option \<times> external \<times> os"
where
  "applyConfigLocked E starts e w =
     (case buildExternalConfigJSON E (ex_node e) (ex_runtime e) of
        Inl err \<Rightarrow> (Some (ExtConfig err), e, w)
      | Inr body \<Rightarrow>
          if configHash body = ex_lastConfigHash e then (None, e, w)
          else case MkdirFor (ex_configPath e) w of
            Some err \<Rightarrow> (Some (ExtMkdir err), e, w)
          | None \<Rightarrow>
              (case WriteFile (ex_configPath e) (body @ [CHR 0x0A]) w of
                 (Some err, w') \<Rightarrow> (Some (ExtWrite err), e, w')
               | (None, w') \<Rightarrow>
                   let e1 = e\<lparr>ex_lastConfigHash := configHash body\<rparr> in
                   if ex_cmd e1 = None then (None, e1, w')
                   else (case restartLocked starts e1 of (r, e2) \<Rightarrow> (r, e2, w'))))"

definition ext_Start ::
  "('p, 't) cfgenv \<Rightarrow> bool \<Rightarrow> external \<Rightarrow> os \<Rightarrow> external_error option \<times> external \<times> os"
where
  "ext_Start E starts e w =
     (case MkdirFor (ex_configPath e) w of
        Some err \<Rightarrow> (Some (ExtMkdir err), e, w)
      | None \<Rightarrow>
          (case applyConfigLocked E starts e w of
             (Some err, e1, w1) \<Rightarrow> (Some err, e1, w1)
           | (None, e1, w1) \<Rightarrow> (case startLocked starts e1 of (r, e2) \<Rightarrow> (r, e2, w1))))"

definition ext_Close :: "external \<Rightarrow> external" where
  "ext_Close e = stopLocked e"

definition ext_SetAliveList :: "(int \<rightharpoonup> int) \<Rightarrow> external \<Rightarrow> external" where
  "ext_SetAliveList alive e = e\<lparr>ex_aliveList := alive\<rparr>"

definition ext_UpdateUsers ::
  "('p, 't) cfgenv \<Rightarrow> 'sc keyenv \<Rightarrow> string iter \<Rightarrow> bool \<Rightarrow> UserInfo list \<Rightarrow> UserInfo list \<Rightarrow> UserInfo list \<Rightarrow>
   UserInfo list option \<Rightarrow> external \<Rightarrow> os \<Rightarrow> external_error option \<times> external \<times> os"
where
  "ext_UpdateUsers E K it starts added deleted modified full e w =
     (case (case full of
              Some users \<Rightarrow> ext_replaceUsersLocked K it users e w
            | None \<Rightarrow> ext_rebuildUserHashesLocked K it
                (e\<lparr>ex_users := enroll modified (enroll added (expel deleted (ex_users e))),
                   ex_online := expel deleted (ex_online e)\<rparr>) w) of
        (Some err, e1, w1) \<Rightarrow> (Some (ExtKeys err), e1, w1)
      | (None, e1, w1) \<Rightarrow> applyConfigLocked E starts e1 w1)"

section \<open>Traffic and online users\<close>

definition ext_trafficEntry :: "int \<Rightarrow> external \<Rightarrow> string \<Rightarrow> UserTraffic option" where
  "ext_trafficEntry reportMin e uuid =
     (case ex_pending e uuid of
        None \<Rightarrow> None
      | Some d \<Rightarrow>
          if \<not> overThreshold reportMin (pt_Upload d) (pt_Download d) then None
          else Some \<lparr>ut_UID = pt_UID d, ut_Upload = pt_Upload d, ut_Download = pt_Download d, ut_UUID = pt_UUID d\<rparr>)"

definition ext_GetUserTrafficSlice :: "string iter \<Rightarrow> int \<Rightarrow> external \<Rightarrow> UserTraffic list" where
  "ext_GetUserTrafficSlice it reportMin e =
     sort_slice ut_UID (List.map_filter (ext_trafficEntry reportMin e) (visit it (dom (ex_pending e))))"

definition ext_confirmOne :: "string iter \<Rightarrow> UserTraffic \<Rightarrow> external \<Rightarrow> external" where
  "ext_confirmOne it traffic e =
     (let uuid = (if ut_UUID traffic = '''' then uuidByUIDLocked it (ut_UID traffic) (ex_users e) else ut_UUID traffic);
          delta0 = zero_of zeroPending (ex_pending e) uuid;
          delta = delta0\<lparr>pt_Upload := settle (ut_Upload traffic) (pt_Upload delta0),
                        pt_Download := settle (ut_Download traffic) (pt_Download delta0)\<rparr>
      in e\<lparr>ex_pending := (ex_pending e)
           (uuid := if pt_Upload delta = 0 \<and> pt_Download delta = 0 then None else Some delta)\<rparr>)"

definition ext_ConfirmUserTraffic :: "string iter \<Rightarrow> UserTraffic list \<Rightarrow> external \<Rightarrow> external" where
  "ext_ConfirmUserTraffic it ts e = fold (ext_confirmOne it) ts e"

definition ext_onlineEntry :: "int64 \<Rightarrow> external \<Rightarrow> string \<Rightarrow> OnlineUser option" where
  "ext_onlineEntry cutoff e uuid =
     (case ex_online e uuid of
        None \<Rightarrow> None
      | Some st \<Rightarrow>
          if on_seenAt st < cutoff then None
          else let user = zero_of zeroUser (ex_users e) uuid in
            if ui_Id user = 0 then None
            else Some \<lparr>ou_UID = ui_Id user, ou_IP = onlineIP (ni_Id (ex_node e)) (on_ip st)\<rparr>)"

definition ext_GetOnlineDevice :: "string iter \<Rightarrow> int64 \<Rightarrow> external \<Rightarrow> OnlineUser list \<times> external" where
  "ext_GetOnlineDevice it now e =
     (let cutoff = onlineCutoff now (ni_PushInterval (ex_node e)) in
      (List.map_filter (ext_onlineEntry cutoff e) (visit it (dom (ex_online e))),
       e\<lparr>ex_online := dropOld cutoff (ex_online e)\<rparr>))"

definition importEvent :: "int64 \<Rightarrow> event \<Rightarrow> external \<Rightarrow> external" where
  "importEvent now ev e =
     (let uuid = zero_of '''' (ex_userHashToUUID e) (ev_UserHash ev) in
      if uuid = '''' then e
      else
        let user = zero_of zeroUser (ex_users e) uuid in
        if ui_Id user = 0 then e
        else if ev_Type ev = ''open'' then
          e\<lparr>ex_online := (ex_online e)(uuid \<mapsto> \<lparr>on_seenAt = now, on_ip = ev_IP ev\<rparr>)\<rparr>
        else if ev_Type ev = ''close'' then e\<lparr>ex_online := (ex_online e)(uuid := None)\<rparr>
        else if ev_Type ev = ''traffic'' then
          let delta = zero_of zeroPending (ex_pending e) uuid in
          e\<lparr>ex_pending := (ex_pending e)(uuid \<mapsto>
            \<lparr>pt_UID = ui_Id user, pt_UUID = uuid, pt_Upload = wrap64 (pt_Upload delta + ev_Upload ev),
             pt_Download = wrap64 (pt_Download delta + ev_Download ev)\<rparr>)\<rparr>
        else e)"

definition ImportEventLine :: "(string \<Rightarrow> event option) \<Rightarrow> int64 \<Rightarrow> string \<Rightarrow> external \<Rightarrow> bool \<times> external" where
  "ImportEventLine decode now raw e =
     (case decode raw of None \<Rightarrow> (False, e) | Some ev \<Rightarrow> (True, importEvent now ev e))"

section \<open>The invariant\<close>

text \<open>
  Pending traffic is filed under its own nonblank UUID and consists of counts; the process
  the engine holds is the one that runs, and there is no other.
\<close>

definition ext_ok :: "external \<Rightarrow> bool" where
  "ext_ok e \<longleftrightarrow>
     finite (dom (ex_pending e)) \<and>
     (\<forall>u d. ex_pending e u = Some d \<longrightarrow> u \<noteq> '''' \<and> pt_UUID d = u \<and> is_count (pt_Upload d) \<and> is_count (pt_Download d)) \<and>
     (\<forall>p. running e p \<longleftrightarrow> ex_cmd e = Some p)"

lemma ext_okD:
  assumes "ext_ok e"
  shows "finite (dom (ex_pending e))"
    "ex_pending e u = Some d \<Longrightarrow> u \<noteq> '''' \<and> pt_UUID d = u \<and> is_count (pt_Upload d) \<and> is_count (pt_Download d)"
    "running e p \<longleftrightarrow> ex_cmd e = Some p"
  using assms by (simp_all add: ext_ok_def)

definition ext_pending_of :: "side \<Rightarrow> string \<Rightarrow> external \<Rightarrow> int" where
  "ext_pending_of d u e =
     (let delta = zero_of zeroPending (ex_pending e) u in pick d (pt_Upload delta) (pt_Download delta))"

lemma ext_pending_same: "ex_pending e' = ex_pending e \<Longrightarrow> ext_pending_of d u e' = ext_pending_of d u e"
  by (simp add: ext_pending_of_def)

lemma zeroPending_simps [simp]: "pt_Upload zeroPending = 0" "pt_Download zeroPending = 0"
  by (simp_all add: zeroPending_def)

lemma ext_pending_count: "ext_ok e \<Longrightarrow> is_count (ext_pending_of d u e)"
  using ext_okD(2) [of e u] by (cases d; cases "ex_pending e u") (auto simp: ext_pending_of_def)

text \<open>The process table through each operation.\<close>

definition one_process :: "external \<Rightarrow> bool" where
  "one_process e \<longleftrightarrow> (\<forall>p. running e p \<longleftrightarrow> ex_cmd e = Some p)"

lemma one_process_same:
  "ex_cmd e' = ex_cmd e \<Longrightarrow> ex_procs e' = ex_procs e \<Longrightarrow> one_process e' = one_process e"
  by (simp add: one_process_def running_def)

lemma running_stop: "running (stopLocked e) q \<longleftrightarrow> running e q \<and> ex_cmd e \<noteq> Some q"
  by (cases "ex_cmd e = Some q") (auto simp: running_def stopLocked_def split: option.split)

lemma running_exited: "running (processExited p e) q \<longleftrightarrow> running e q \<and> q \<noteq> p"
  by (cases "q = p") (auto simp: running_def processExited_def)

lemma running_start:
  "running (snd (startLocked b e)) q \<longleftrightarrow> running e q \<or> (ex_cmd e = None \<and> b \<and> q = length (ex_procs e))"
  by (cases "q = length (ex_procs e)") (auto simp: running_def startLocked_def nth_append split: option.split)

lemma stop_one: "one_process e \<Longrightarrow> one_process (stopLocked e)"
proof -
  have "ex_cmd (stopLocked e) = None" by (simp add: stopLocked_def split: option.split)
  then show "one_process e \<Longrightarrow> one_process (stopLocked e)" by (simp add: one_process_def running_stop)
qed

lemma exited_one:
  assumes "one_process e"
  shows "one_process (processExited p e)"
proof -
  have "ex_cmd (processExited p e) = (if ex_cmd e = Some p then None else ex_cmd e)"
    by (simp add: processExited_def)
  then show ?thesis using assms by (auto simp: one_process_def running_exited)
qed

lemma start_one:
  assumes "one_process e"
  shows "one_process (snd (startLocked b e))"
proof -
  have "ex_cmd (snd (startLocked b e)) =
      (case ex_cmd e of Some p \<Rightarrow> Some p | None \<Rightarrow> if b then Some (length (ex_procs e)) else None)"
    by (simp add: startLocked_def split: option.split)
  then show ?thesis using assms by (auto simp: one_process_def running_start split: option.split)
qed

lemma restart_one: "one_process e \<Longrightarrow> one_process (snd (restartLocked b e))"
  by (simp add: restartLocked_def start_one stop_one)

lemma stop_pending [simp]: "ex_pending (stopLocked e) = ex_pending e"
  by (simp add: stopLocked_def split: option.split)

lemma start_pending [simp]: "ex_pending (snd (startLocked b e)) = ex_pending e"
  by (simp add: startLocked_def split: option.split)

lemma ext_ok_iff:
  "ext_ok e \<longleftrightarrow> one_process e \<and> finite (dom (ex_pending e)) \<and>
     (\<forall>u d. ex_pending e u = Some d \<longrightarrow> u \<noteq> '''' \<and> pt_UUID d = u \<and> is_count (pt_Upload d) \<and> is_count (pt_Download d))"
  by (auto simp: ext_ok_def one_process_def)

lemma ext_ok_by: "ex_pending e' = ex_pending e \<Longrightarrow> ext_ok e \<Longrightarrow> (one_process e \<Longrightarrow> one_process e') \<Longrightarrow> ext_ok e'"
  by (simp add: ext_ok_iff)

definition ext_keeps :: "(external \<Rightarrow> external) \<Rightarrow> bool" where
  "ext_keeps f \<longleftrightarrow> (\<forall>e. ex_pending (f e) = ex_pending e \<and> (one_process e \<longrightarrow> one_process (f e)))"

lemma ext_keepsD: "ext_keeps f \<Longrightarrow> ext_ok e \<Longrightarrow> ext_ok (f e)" "ext_keeps f \<Longrightarrow> ext_pending_of d u (f e) = ext_pending_of d u e"
  by (auto simp: ext_keeps_def ext_pending_of_def intro: ext_ok_by)

lemma ext_keepsI:
  assumes "\<And>e. ex_pending (f e) = ex_pending e" and "\<And>e. one_process e \<Longrightarrow> one_process (f e)"
  shows "ext_keeps f"
  using assms by (simp add: ext_keeps_def)

lemma ext_keeps_comp: "ext_keeps f \<Longrightarrow> ext_keeps g \<Longrightarrow> ext_keeps (\<lambda>e. f (g e))"
  by (simp add: ext_keeps_def)

lemma ext_keeps_same:
  assumes "\<And>e. ex_pending (f e) = ex_pending e" "\<And>e. ex_cmd (f e) = ex_cmd e" "\<And>e. ex_procs (f e) = ex_procs e"
  shows "ext_keeps f"
  using assms one_process_same [of "f e" e for e] by (intro ext_keepsI) blast+

lemma apply_result:
  "fst (snd (applyConfigLocked E b e w)) = e \<or>
   (\<exists>h. fst (snd (applyConfigLocked E b e w)) = e\<lparr>ex_lastConfigHash := h\<rparr>) \<or>
   (\<exists>h. fst (snd (applyConfigLocked E b e w)) = snd (restartLocked b (e\<lparr>ex_lastConfigHash := h\<rparr>)))"
  by (auto simp: applyConfigLocked_def Let_def case_prod_beta split: sum.split option.split)

lemma restart_pending [simp]: "ex_pending (snd (restartLocked b e)) = ex_pending e"
  by (simp add: restartLocked_def)

lemma apply_keeps: "ext_keeps (\<lambda>e. fst (snd (applyConfigLocked E b e w)))"
proof (rule ext_keepsI)
  fix e :: external
  show "ex_pending (fst (snd (applyConfigLocked E b e w))) = ex_pending e"
    using apply_result [of E b e w] by auto
  assume e: "one_process e"
  then have "one_process (e\<lparr>ex_lastConfigHash := h\<rparr>)" for h
    by (simp add: one_process_same [of "e\<lparr>ex_lastConfigHash := h\<rparr>" e])
  then show "one_process (fst (snd (applyConfigLocked E b e w)))"
    using apply_result [of E b e w] e restart_one by fastforce
qed

lemma rebuild_frame [simp]:
  "ex_pending (fst (snd (ext_rebuildUserHashesLocked K it e w))) = ex_pending e"
  "ex_cmd (fst (snd (ext_rebuildUserHashesLocked K it e w))) = ex_cmd e"
  "ex_procs (fst (snd (ext_rebuildUserHashesLocked K it e w))) = ex_procs e"
  "ex_node (fst (snd (ext_rebuildUserHashesLocked K it e w))) = ex_node e"
  "ex_runtime (fst (snd (ext_rebuildUserHashesLocked K it e w))) = ex_runtime e"
  "ex_lastConfigHash (fst (snd (ext_rebuildUserHashesLocked K it e w))) = ex_lastConfigHash e"
  "ex_configPath (fst (snd (ext_rebuildUserHashesLocked K it e w))) = ex_configPath e"
  "ex_users (fst (snd (ext_rebuildUserHashesLocked K it e w))) = ex_users e"
  by (simp_all add: ext_rebuildUserHashesLocked_def split: prod.split sum.split)

text \<open>\<open>UpdateUsers\<close> as the user part followed, if that succeeds, by the configuration part.\<close>

definition user_part ::
  "'sc keyenv \<Rightarrow> string iter \<Rightarrow> UserInfo list \<Rightarrow> UserInfo list \<Rightarrow> UserInfo list \<Rightarrow> UserInfo list option \<Rightarrow>
   external \<Rightarrow> os \<Rightarrow> key_error option \<times> external \<times> os"
where
  "user_part K it added deleted modified full e w =
     (case full of
        Some users \<Rightarrow> ext_replaceUsersLocked K it users e w
      | None \<Rightarrow> ext_rebuildUserHashesLocked K it
          (e\<lparr>ex_users := enroll modified (enroll added (expel deleted (ex_users e))),
             ex_online := expel deleted (ex_online e)\<rparr>) w)"

lemma UpdateUsers_parts:
  "ext_UpdateUsers E K it b added deleted modified full e w =
     (case user_part K it added deleted modified full e w of
        (Some err, e1, w1) \<Rightarrow> (Some (ExtKeys err), e1, w1)
      | (None, e1, w1) \<Rightarrow> applyConfigLocked E b e1 w1)"
  by (simp add: ext_UpdateUsers_def user_part_def)

lemma user_part_frame [simp]:
  "ex_pending (fst (snd (user_part K it added deleted modified full e w))) = ex_pending e"
  "ex_cmd (fst (snd (user_part K it added deleted modified full e w))) = ex_cmd e"
  "ex_procs (fst (snd (user_part K it added deleted modified full e w))) = ex_procs e"
  "ex_node (fst (snd (user_part K it added deleted modified full e w))) = ex_node e"
  "ex_runtime (fst (snd (user_part K it added deleted modified full e w))) = ex_runtime e"
  "ex_lastConfigHash (fst (snd (user_part K it added deleted modified full e w))) = ex_lastConfigHash e"
  "ex_configPath (fst (snd (user_part K it added deleted modified full e w))) = ex_configPath e"
  "ex_users (fst (snd (user_part K it added deleted modified full e w))) =
    updated_users added deleted modified full (ex_users e)"
  by (simp_all add: user_part_def ext_replaceUsersLocked_def updated_users_def split: option.split)

lemma update_keeps: "ext_keeps (\<lambda>e. fst (snd (ext_UpdateUsers E K it b added deleted modified full e w)))"
proof (rule ext_keepsI)
  fix e :: external
  obtain r e1 w1 where u: "user_part K it added deleted modified full e w = (r, e1, w1)"
    using prod_cases3 by blast
  have f: "ex_pending e1 = ex_pending e" "ex_cmd e1 = ex_cmd e" "ex_procs e1 = ex_procs e"
    using user_part_frame(1-3) [of K it added deleted modified full e w] by (simp_all add: u)
  have "fst (snd (ext_UpdateUsers E K it b added deleted modified full e w)) =
      (case r of None \<Rightarrow> fst (snd (applyConfigLocked E b e1 w1)) | Some _ \<Rightarrow> e1)"
    by (simp add: UpdateUsers_parts u split: option.split)
  then show "ex_pending (fst (snd (ext_UpdateUsers E K it b added deleted modified full e w))) = ex_pending e"
    "one_process e \<Longrightarrow> one_process (fst (snd (ext_UpdateUsers E K it b added deleted modified full e w)))"
    using f apply_keeps [of E b w1] one_process_same [OF f(2,3)]
    by (auto simp: ext_keeps_def split: option.split)
qed

lemma start_keeps: "ext_keeps (\<lambda>e. fst (snd (ext_Start E b e w)))"
proof (rule ext_keepsI)
  fix e :: external
  obtain r e1 w1 where a: "applyConfigLocked E b e w = (r, e1, w1)" using prod_cases3 by blast
  have "fst (snd (ext_Start E b e w)) =
      (case MkdirFor (ex_configPath e) w of Some _ \<Rightarrow> e | None \<Rightarrow>
        (case r of Some _ \<Rightarrow> e1 | None \<Rightarrow> snd (startLocked b e1)))"
    by (simp add: ext_Start_def a split: option.split prod.split)
  then show "ex_pending (fst (snd (ext_Start E b e w))) = ex_pending e"
    "one_process e \<Longrightarrow> one_process (fst (snd (ext_Start E b e w)))"
    using apply_keeps [of E b w] a by (auto simp: ext_keeps_def start_one split: option.split) (metis fst_conv snd_conv)+
qed

section \<open>The external engine keeps the server's contract\<close>

datatype 'sc ext_op =
    ExtUpdate "'sc keyenv" "string iter" bool "UserInfo list" "UserInfo list" "UserInfo list" "UserInfo list option" os
  | ExtAlive "int \<rightharpoonup> int"
  | ExtOnline "string iter" int64
  | ExtStart bool os
  | ExtClose
  | ExtExited nat

text \<open>The events other than traffic, too: an open or a close of a user's session.\<close>

primrec ext_other :: "('p, 't) cfgenv \<Rightarrow> 'sc ext_op \<Rightarrow> external \<Rightarrow> external" where
  "ext_other E (ExtUpdate K it b added deleted modified full w) e =
     fst (snd (ext_UpdateUsers E K it b added deleted modified full e w))"
| "ext_other E (ExtAlive alive) e = ext_SetAliveList alive e"
| "ext_other E (ExtOnline it now) e = snd (ext_GetOnlineDevice it now e)"
| "ext_other E (ExtStart b w) e = fst (snd (ext_Start E b e w))"
| "ext_other E ExtClose e = ext_Close e"
| "ext_other E (ExtExited p) e = processExited p e"

lemma ext_keeps_pending: "ext_keeps f \<Longrightarrow> ex_pending (f e) = ex_pending e"
  and ext_keeps_one: "ext_keeps f \<Longrightarrow> one_process e \<Longrightarrow> one_process (f e)"
  by (simp_all add: ext_keeps_def)

lemma keeps_ext_other: "ext_keeps (ext_other E x)"
proof (rule ext_keepsI)
  fix e
  show "ex_pending (ext_other E x e) = ex_pending e"
    by (cases x) (simp_all add: ext_keeps_pending [OF update_keeps] ext_keeps_pending [OF start_keeps] ext_Close_def ext_SetAliveList_def ext_GetOnlineDevice_def Let_def processExited_def)
  assume e: "one_process e"
  show "one_process (ext_other E x e)"
  proof (cases x)
    case (ExtAlive alive)
    then show ?thesis using e one_process_same [of "ext_SetAliveList alive e" e] by (simp add: ext_SetAliveList_def)
  next
    case (ExtOnline it now)
    then show ?thesis
      using e one_process_same [of "snd (ext_GetOnlineDevice it now e)" e] by (simp add: ext_GetOnlineDevice_def Let_def)
  qed (simp_all add: e ext_keeps_one [OF update_keeps] ext_keeps_one [OF start_keeps] ext_Close_def stop_one exited_one)
qed

lemma ext_update_pending_ok:
  assumes "ext_ok e" and "\<And>d. x = Some d \<Longrightarrow> u \<noteq> '''' \<and> pt_UUID d = u \<and> is_count (pt_Upload d) \<and> is_count (pt_Download d)"
  shows "ext_ok (e\<lparr>ex_pending := (ex_pending e)(u := x)\<rparr>)"
proof -
  have "one_process (e\<lparr>ex_pending := (ex_pending e)(u := x)\<rparr>) = one_process e" by (rule one_process_same) simp_all
  then show ?thesis using assms by (cases x) (simp_all add: ext_ok_iff)
qed

definition trafficEvent :: "string \<Rightarrow> int \<Rightarrow> int \<Rightarrow> event" where
  "trafficEvent hash up down =
     \<lparr>ev_Type = ''traffic'', ev_UserHash = hash, ev_IP = '''', ev_Upload = up, ev_Download = down\<rparr>"

text \<open>The UUID an event is booked to.\<close>

definition ownerHash :: "string \<Rightarrow> external \<Rightarrow> string option" where
  "ownerHash hash e =
     (let uuid = zero_of '''' (ex_userHashToUUID e) hash in
      if uuid = '''' \<or> ui_Id (zero_of zeroUser (ex_users e) uuid) = 0 then None else Some uuid)"

lemma importEvent_traffic:
  "importEvent now (trafficEvent hash up down) e =
    (case ownerHash hash e of None \<Rightarrow> e
     | Some uuid \<Rightarrow> e\<lparr>ex_pending := (ex_pending e)(uuid \<mapsto>
         \<lparr>pt_UID = ui_Id (zero_of zeroUser (ex_users e) uuid), pt_UUID = uuid,
          pt_Upload = wrap64 (ext_pending_of Up uuid e + up), pt_Download = wrap64 (ext_pending_of Down uuid e + down)\<rparr>)\<rparr>)"
  by (simp add: importEvent_def trafficEvent_def ownerHash_def ext_pending_of_def Let_def)

lemma import_ok:
  assumes e: "ext_ok e" and ab: "0 \<le> a" "0 \<le> b"
    and room: "\<And>u. ownerHash h e = Some u \<Longrightarrow> is_count (ext_pending_of Up u e + a) \<and> is_count (ext_pending_of Down u e + b)"
  shows "ext_ok (importEvent now (trafficEvent h a b) e)"
    and "ext_pending_of d v (importEvent now (trafficEvent h a b) e) =
      ext_pending_of d v e + (if ownerHash h e = Some v then pick d a b else 0)"
proof -
  have "ext_ok (importEvent now (trafficEvent h a b) e) \<and> ext_pending_of d v (importEvent now (trafficEvent h a b) e) =
      ext_pending_of d v e + (if ownerHash h e = Some v then pick d a b else 0)"
  proof (cases "ownerHash h e")
    case None
    then show ?thesis using e by (simp add: importEvent_traffic)
  next
    case (Some u)
    note r = room [OF Some]
    let ?x = "\<lparr>pt_UID = ui_Id (zero_of zeroUser (ex_users e) u), pt_UUID = u,
          pt_Upload = ext_pending_of Up u e + a, pt_Download = ext_pending_of Down u e + b\<rparr>"
    have E: "importEvent now (trafficEvent h a b) e = e\<lparr>ex_pending := (ex_pending e)(u \<mapsto> ?x)\<rparr>"
      using r by (simp add: importEvent_traffic Some)
    have ne: "u \<noteq> ''''" using Some by (auto simp: ownerHash_def Let_def split: if_splits)
    have "ext_ok (e\<lparr>ex_pending := (ex_pending e)(u \<mapsto> ?x)\<rparr>)"
      by (rule ext_update_pending_ok [OF e]) (use r ne in auto)
    moreover have "ext_pending_of d v (e\<lparr>ex_pending := (ex_pending e)(u \<mapsto> ?x)\<rparr>) =
        (if v = u then pick d (ext_pending_of Up u e + a) (ext_pending_of Down u e + b) else ext_pending_of d v e)"
      by (simp add: ext_pending_of_def Let_def zero_of_upd)
    ultimately show ?thesis using Some by (cases d) (auto simp: E)
  qed
  then show "ext_ok (importEvent now (trafficEvent h a b) e)" "ext_pending_of d v (importEvent now (trafficEvent h a b) e) =
      ext_pending_of d v e + (if ownerHash h e = Some v then pick d a b else 0)"
    by (rule conjunct1, rule conjunct2)
qed

lemma ext_confirmOne_ok:
  assumes "ext_ok e" and "proper_traffic t"
  shows "ext_ok (ext_confirmOne it t e)"
    and "ext_pending_of d u (ext_confirmOne it t e) =
      (if ut_UUID t = u then max 0 (ext_pending_of d u e - traffic_of d t) else ext_pending_of d u e)"
proof -
  have t: "ut_UUID t \<noteq> ''''" "is_count (ut_Upload t)" "is_count (ut_Download t)"
    using assms(2) by (simp_all add: proper_traffic_def)
  let ?u = "ut_UUID t"
  let ?old = "zero_of zeroPending (ex_pending e) ?u"
  let ?new = "?old\<lparr>pt_Upload := settle (ut_Upload t) (pt_Upload ?old), pt_Download := settle (ut_Download t) (pt_Download ?old)\<rparr>"
  have E: "ext_confirmOne it t e = e\<lparr>ex_pending := (ex_pending e)
      (?u := if pt_Upload ?new = 0 \<and> pt_Download ?new = 0 then None else Some ?new)\<rparr>"
    using t(1) by (simp add: ext_confirmOne_def Let_def)
  have c: "is_count (pt_Upload ?old)" "is_count (pt_Download ?old)"
    using ext_pending_count [OF assms(1), of Up ?u] ext_pending_count [OF assms(1), of Down ?u]
    by (simp_all add: ext_pending_of_def Let_def)
  have known: "pt_UUID ?new = ?u" if "\<not> (pt_Upload ?new = 0 \<and> pt_Download ?new = 0)"
  proof (cases "ex_pending e ?u")
    case None
    then have "pt_Upload ?new = 0" "pt_Download ?new = 0" using t by (simp_all add: settle_def is_count_def)
    then show ?thesis using that by blast
  next
    case (Some x)
    then show ?thesis using ext_okD(2) [OF assms(1) Some] by simp
  qed
  have "is_count (pt_Upload ?new)" "is_count (pt_Download ?new)" using t c by (simp_all add: is_count_settle)
  with known t(1) show "ext_ok (ext_confirmOne it t e)"
    unfolding E by (intro ext_update_pending_ok [OF assms(1)]) (metis option.distinct(1) option.inject)
  show "ext_pending_of d u (ext_confirmOne it t e) =
      (if ut_UUID t = u then max 0 (ext_pending_of d u e - traffic_of d t) else ext_pending_of d u e)"
    using t c by (cases d) (auto simp: E ext_pending_of_def zero_of_def settle_count split: option.split)
qed

lemma ext_confirm_ok:
  assumes "ext_ok e" and "\<And>t. t \<in> set ts \<Longrightarrow> proper_traffic t"
  shows "ext_ok (ext_ConfirmUserTraffic it ts e) \<and>
    ext_pending_of d u (ext_ConfirmUserTraffic it ts e) = max 0 (ext_pending_of d u e - reported d u ts)"
  using assms
proof (induction ts arbitrary: e)
  case Nil
  then show ?case using ext_pending_count [of e d u] by (simp add: ext_ConfirmUserTraffic_def is_count_def)
next
  case (Cons t ts)
  have t: "proper_traffic t" using Cons.prems by simp
  note C = ext_confirmOne_ok [OF Cons.prems(1) t]
  have "ext_ok (ext_ConfirmUserTraffic it ts (ext_confirmOne it t e)) \<and>
      ext_pending_of d u (ext_ConfirmUserTraffic it ts (ext_confirmOne it t e)) =
      max 0 (ext_pending_of d u (ext_confirmOne it t e) - reported d u ts)"
    using Cons.prems(2) C(1) by (intro Cons.IH) simp_all
  moreover have "0 \<le> reported d u ts" using Cons.prems(2) by (intro reported_nonneg) simp
  ultimately show ?case
    using C(2) [of d u it] by (auto simp: ext_ConfirmUserTraffic_def max_def)
qed

lemma ext_trafficEntry_SomeD:
  assumes "ext_ok e" and "ext_trafficEntry m e u = Some t"
  shows "ut_UUID t = u \<and> u \<noteq> '''' \<and> traffic_of d t = ext_pending_of d u e"
  using assms(2) ext_okD(2) [OF assms(1)]
  by (cases d) (auto simp: ext_trafficEntry_def ext_pending_of_def split: option.splits if_splits)

lemma ext_slice_entries:
  assumes "ext_ok e" and "t \<in> set (ext_GetUserTrafficSlice it m e)"
  shows "ext_trafficEntry m e (ut_UUID t) = Some t"
  using assms(2) ext_okD(1) [OF assms(1)] ext_trafficEntry_SomeD [OF assms(1)]
  by (auto simp: ext_GetUserTrafficSlice_def set_map_filter)

interpretation external_server: traffic_server ext_ok "ext_GetUserTrafficSlice it" "ext_ConfirmUserTraffic it'"
  "\<lambda>h a b. importEvent now (trafficEvent h a b)" "ext_other E" ownerHash ext_pending_of for it it' now E
proof unfold_locales
  fix e m t d
  assume e: "ext_ok e" and t: "t \<in> set (ext_GetUserTrafficSlice it m e)"
  show "traffic_of d t = ext_pending_of d (ut_UUID t) e" "ut_UUID t \<noteq> ''''"
    using ext_trafficEntry_SomeD [OF e ext_slice_entries [OF e t]] by blast+
next
  fix e m
  assume "ext_ok e"
  then show "distinct (map ut_UUID (ext_GetUserTrafficSlice it m e))"
    by (auto simp: ext_GetUserTrafficSlice_def intro!: distinct_map_filter dest: ext_trafficEntry_SomeD)
qed (simp_all add: ext_pending_count import_ok ext_keepsD [OF keeps_ext_other] ext_confirm_ok)

section \<open>What the external engine promises\<close>

lemma NewExternal_ok:
  assumes "NewExternal K it node users alive cfg keyStore w = (Inr e, ks, w')"
  shows "ext_ok e" and "ext_pending_of d u e = 0"
proof -
  obtain e0 where r: "ext_rebuildUserHashesLocked K it e0 w = (None, e, w')"
    and e0: "ex_pending e0 = Map.empty" "ex_cmd e0 = None" "ex_procs e0 = []"
    using assms by (auto simp: NewExternal_def Let_def ext_replaceUsersLocked_def split: option.splits prod.splits)
  have "e = fst (snd (ext_rebuildUserHashesLocked K it e0 w))" using r by simp
  with e0 have "ex_pending e = Map.empty" "ex_cmd e = None" "ex_procs e = []" by simp_all
  then show "ext_ok e" "ext_pending_of d u e = 0"
    by (cases d; simp add: ext_ok_def running_def ext_pending_of_def Let_def)+
qed


definition sampleExternal :: external where
  "sampleExternal = \<lparr>ex_node = sample_node, ex_runtime = autoConfig 1,
     ex_workDir = JoinPath [rc_WorkingDir (autoConfig 1), ''node-'' @ Itoa 0],
     ex_configPath = JoinPath [JoinPath [rc_WorkingDir (autoConfig 1), ''node-'' @ Itoa 0], ''server.config.json''],
     ex_users = [''a'' \<mapsto> sampleUser 1 ''a''], ex_userHashToUUID = [userHashHex ''k0'' \<mapsto> ''a''],
     ex_pending = Map.empty, ex_online = Map.empty, ex_aliveList = Map.empty, ex_lastConfigHash = '''',
     ex_cmd = None, ex_keyStore = sampleStore (Some [''1'' \<mapsto> ''k0'']), ex_procs = []\<rparr>"

lemma sample_NewExternal:
  "NewExternal sampleEnv it sample_node [sampleUser 1 ''a''] Map.empty (autoConfig 1) (sampleStore None) emptyOS =
     (Inr sampleExternal, sampleStore (Some [''1'' \<mapsto> ''k0'']), savedOS)"
  by (simp add: NewExternal_def ext_replaceUsersLocked_def ext_rebuildUserHashesLocked_def listUsers_def sample_build
      sampleExternal_def ext_hashTable_def keyEntry_def Let_def)

definition externalSession :: "(string, unit ext_op) session list" where
  "externalSession =
     [Activity (Moved (userHashHex ''k0'') 700 900), Round 0 [Moved (userHashHex ''k0'') 50 0, Moved ''other'' 9 9] True]"

definition externalBooks :: "external books" where
  "externalBooks = fold (session_step (ext_GetUserTrafficSlice sorted_list_of_set) (ext_ConfirmUserTraffic sorted_list_of_set)
     (\<lambda>h a b. importEvent 0 (trafficEvent h a b)) (ext_other plainEnv) ownerHash) externalSession
     \<lparr>bk_server = sampleExternal, bk_counted = (\<lambda>_ _. 0), bk_delivered = (\<lambda>_ _. 0)\<rparr>"


text \<open>
  A successful \<open>Start\<close> leaves one running process, started with a configuration file that
  holds exactly the node's configuration, and remembers the hash of it.
\<close>

theorem external_start:
  assumes "ext_Start E starts e w = (None, e', w')" and "ext_ok e" and "ex_lastConfigHash e = ''''"
  shows "\<exists>body p. buildExternalConfigJSON E (ex_node e) (ex_runtime e) = Inr body \<and>
    os_files w' (ex_configPath e) = Some (body @ [CHR 0x0A]) \<and> ex_lastConfigHash e' = configHash body \<and>
    ex_cmd e' = Some p \<and> (\<forall>q. running e' q \<longleftrightarrow> q = p)"
proof -
  have "ext_ok (fst (snd (ext_Start E starts e w)))" by (rule ext_keepsD(1) [OF start_keeps assms(2)])
  then have ok: "ext_ok e'" using assms(1) by simp
  have ne: "configHash body \<noteq> ''''" for body
    unfolding configHash_def by (rule sha256.hex_digest_nonempty) simp
  obtain e1 where a: "applyConfigLocked E starts e w = (None, e1, w')" and s: "startLocked starts e1 = (None, e')"
    using assms(1) by (auto simp: ext_Start_def split: option.splits prod.splits)
  obtain body where b: "buildExternalConfigJSON E (ex_node e) (ex_runtime e) = Inr body"
    and wr: "WriteFile (ex_configPath e) (body @ [CHR 0x0A]) w = (None, w')"
    and h: "ex_lastConfigHash e1 = configHash body"
    using a ne assms(3)
    by (auto simp: applyConfigLocked_def Let_def restartLocked_def startLocked_def stopLocked_def case_prod_beta
        prod_eq_iff split: sum.splits option.splits if_splits prod.splits)
  obtain p where p: "ex_cmd e' = Some p" "ex_lastConfigHash e' = ex_lastConfigHash e1"
    using s by (auto simp: startLocked_def split: option.splits if_splits)
  show ?thesis using b WriteFile_ok [OF wr] h p ext_okD(3) [OF ok] by auto
qed

text \<open>The sample engine started: the configuration it writes and the process it starts.\<close>

definition sampleBody :: string where
  "sampleBody = sc_Key (draftConfig ''pub-ab'' sample_node (autoConfig 1)) @
     sc_FallbackAddr (draftConfig ''pub-ab'' sample_node (autoConfig 1))"

lemma sample_body: "buildExternalConfigJSON plainEnv sample_node (autoConfig 1) = Inr sampleBody"
  unfolding buildExternalConfigJSON_def sample_config by (simp add: plainEnv_def sampleBody_def)

lemma configHash_nonempty [simp]: "configHash body \<noteq> ''''" "[] \<noteq> configHash body"
  using sha256.hex_digest_nonempty [of "bytes_of body"] by (simp_all add: configHash_def del: hexEncode.simps)

definition startedExternal :: external where
  "startedExternal = sampleExternal\<lparr>ex_lastConfigHash := configHash sampleBody, ex_cmd := Some 0, ex_procs := [True]\<rparr>"

lemma sampleExternal_ok: "ext_ok sampleExternal"
  by (simp add: ext_ok_def sampleExternal_def running_def)

lemma sample_ext_Start:
  "ext_Start plainEnv True sampleExternal emptyOS =
    (None, startedExternal, emptyOS\<lparr>os_files := [ex_configPath sampleExternal \<mapsto> sampleBody @ [CHR 0x0A]]\<rparr>)"
  by (simp add: ext_Start_def applyConfigLocked_def sampleExternal_def sample_body MkdirFor_def WriteFile_def emptyOS_def
      startLocked_def startedExternal_def Let_def)

theorem external_start_witness:
  "\<exists>p. ex_cmd startedExternal = Some p \<and> running startedExternal p"
  using external_start [OF sample_ext_Start sampleExternal_ok] by (auto simp: sampleExternal_def)

text \<open>
  C32. Once the process has been started, no user update touches it: the configuration does not
  depend on the users, so the file is not written and nothing is restarted. A process that has
  died stays dead, though every update succeeds.
\<close>

theorem dead_process_stays_dead:
  assumes "buildExternalConfigJSON E (ex_node e) (ex_runtime e) = Inr body"
    and "ex_lastConfigHash e = configHash body"
    and "ext_UpdateUsers E K it starts added deleted modified full e w = (r, e', w')"
  shows "ex_cmd e' = ex_cmd e \<and> ex_procs e' = ex_procs e \<and> ex_lastConfigHash e' = ex_lastConfigHash e \<and>
    ((\<exists>err. r = Some (ExtKeys err)) \<or> r = None) \<and>
    ex_cmd (fst (snd (ext_UpdateUsers E K it starts added deleted modified full (processExited p e) w))) =
      (if ex_cmd e = Some p then None else ex_cmd e)"
proof -
  have no_change: "ex_cmd (fst (snd (ext_UpdateUsers E K it starts added deleted modified full x w))) = ex_cmd x \<and>
      ex_procs (fst (snd (ext_UpdateUsers E K it starts added deleted modified full x w))) = ex_procs x \<and>
      ex_lastConfigHash (fst (snd (ext_UpdateUsers E K it starts added deleted modified full x w))) = ex_lastConfigHash x \<and>
      ((\<exists>err. fst (ext_UpdateUsers E K it starts added deleted modified full x w) = Some (ExtKeys err)) \<or>
       fst (ext_UpdateUsers E K it starts added deleted modified full x w) = None)"
    if "ex_node x = ex_node e" "ex_runtime x = ex_runtime e" "ex_lastConfigHash x = ex_lastConfigHash e" for x
  proof -
    obtain k x1 w1 where u: "user_part K it added deleted modified full x w = (k, x1, w1)" using prod_cases3 by blast
    have f: "ex_node x1 = ex_node e" "ex_runtime x1 = ex_runtime e" "ex_lastConfigHash x1 = ex_lastConfigHash e"
      "ex_cmd x1 = ex_cmd x" "ex_procs x1 = ex_procs x"
      using user_part_frame [of K it added deleted modified full x w] that by (simp_all add: u)
    then have "applyConfigLocked E starts x1 w1 = (None, x1, w1)" using assms(1,2) by (simp add: applyConfigLocked_def)
    then show ?thesis using f that by (cases k) (simp_all add: UpdateUsers_parts u)
  qed
  have "ex_node (processExited p e) = ex_node e" "ex_runtime (processExited p e) = ex_runtime e"
    "ex_lastConfigHash (processExited p e) = ex_lastConfigHash e"
    "ex_cmd (processExited p e) = (if ex_cmd e = Some p then None else ex_cmd e)"
    by (simp_all add: processExited_def)
  with no_change [of e] no_change [of "processExited p e"] show ?thesis by (simp add: assms(3))
qed

theorem dead_process_stays_dead_witness:
  "ex_cmd (fst (snd (ext_UpdateUsers plainEnv sampleEnv sorted_list_of_set True [] [] [] (Some [])
     (processExited 0 startedExternal) savedOS))) = None"
proof -
  obtain r e' w' where u: "ext_UpdateUsers plainEnv sampleEnv sorted_list_of_set True [] [] [] (Some []) startedExternal savedOS
      = (r, e', w')" using prod_cases3 by blast
  have "buildExternalConfigJSON plainEnv (ex_node startedExternal) (ex_runtime startedExternal) = Inr sampleBody"
    "ex_lastConfigHash startedExternal = configHash sampleBody" "ex_cmd startedExternal = Some 0"
    using sample_body by (simp_all add: startedExternal_def sampleExternal_def)
  with dead_process_stays_dead [OF this(1,2) u, of 0] show ?thesis by simp
qed

section \<open>How stopping the process goes\<close>

text \<open>
  The three goroutines of a stop: the caller, which holds the mutex while it selects between
  \<open>done\<close> and the five-second timer; the one that waits for the process and needs the mutex to
  clear \<open>cmd\<close>; and the poller, which closes \<open>done\<close> when it sees \<open>cmd\<close> nil. Time is in
  milliseconds.
\<close>

datatype waiter = WaitingForProcess | WantsMutex | WaiterDone

datatype stopper = Selecting | SawDone | SawTimeout

record stopping =
  sg_cmd :: bool
  sg_mutex :: bool
  sg_exited :: bool
  sg_waiter :: waiter
  sg_closed :: bool
  sg_stopper :: stopper
  sg_time :: nat

definition stop_begin :: "stopping \<Rightarrow> bool" where
  "stop_begin g \<longleftrightarrow> sg_cmd g \<and> sg_mutex g \<and> \<not> sg_closed g \<and> sg_stopper g = Selecting \<and> sg_time g = 0 \<and>
     sg_waiter g \<noteq> WaiterDone"

inductive stop_step :: "stopping \<Rightarrow> stopping \<Rightarrow> bool" where
  exits: "stop_step g (g\<lparr>sg_exited := True\<rparr>)"
| waited: "sg_exited g \<Longrightarrow> sg_waiter g = WaitingForProcess \<Longrightarrow> stop_step g (g\<lparr>sg_waiter := WantsMutex\<rparr>)"
| cleared: "sg_waiter g = WantsMutex \<Longrightarrow> \<not> sg_mutex g \<Longrightarrow> stop_step g (g\<lparr>sg_cmd := False, sg_waiter := WaiterDone\<rparr>)"
| polled: "\<not> sg_cmd g \<Longrightarrow> stop_step g (g\<lparr>sg_closed := True\<rparr>)"
| ticks: "stop_step g (g\<lparr>sg_time := Suc (sg_time g)\<rparr>)"
| sees_done: "sg_stopper g = Selecting \<Longrightarrow> sg_closed g \<Longrightarrow>
    stop_step g (g\<lparr>sg_stopper := SawDone, sg_cmd := False, sg_mutex := False\<rparr>)"
| times_out: "sg_stopper g = Selecting \<Longrightarrow> 5000 \<le> sg_time g \<Longrightarrow>
    stop_step g (g\<lparr>sg_stopper := SawTimeout, sg_exited := True, sg_cmd := False, sg_mutex := False\<rparr>)"

inductive_cases stop_stepE: "stop_step g g'"

text \<open>
  C33. Stopping the process always takes the full five seconds and ends in a kill, even if the
  process obeys the signal at once: the goroutine that would clear \<open>cmd\<close> needs the mutex the
  caller holds, so the poller never sees it nil. In every execution, the caller has not seen
  \<open>done\<close>, and when it has gone on, at least five seconds have passed.
\<close>

theorem stop_waits_five_seconds:
  assumes "stop_step\<^sup>*\<^sup>* g0 g" and "stop_begin g0"
  shows "sg_stopper g \<noteq> SawDone \<and> (sg_stopper g \<noteq> Selecting \<longrightarrow> 5000 \<le> sg_time g) \<and>
    (sg_stopper g = Selecting \<longrightarrow> sg_cmd g \<and> sg_mutex g \<and> \<not> sg_closed g)"
  using assms(1)
proof (induction rule: rtranclp_induct)
  case base
  then show ?case using assms(2) by (simp add: stop_begin_def)
next
  case (step g g')
  from step.hyps(2) step.IH show ?case by (elim stop_stepE) auto
qed

definition stop_sample :: stopping where
  "stop_sample = \<lparr>sg_cmd = True, sg_mutex = True, sg_exited = False, sg_waiter = WaitingForProcess,
     sg_closed = False, sg_stopper = Selecting, sg_time = 0\<rparr>"

theorem stop_waits_five_seconds_witness:
  "\<exists>g. stop_step\<^sup>*\<^sup>* stop_sample g \<and> sg_exited g \<and> sg_waiter g = WantsMutex \<and> sg_cmd g \<and> \<not> sg_closed g"
proof -
  let ?g1 = "stop_sample\<lparr>sg_exited := True\<rparr>"
  let ?g2 = "?g1\<lparr>sg_waiter := WantsMutex\<rparr>"
  have "stop_step stop_sample ?g1" by (rule exits)
  moreover have "stop_step ?g1 ?g2" by (rule waited) (simp_all add: stop_sample_def)
  ultimately have r: "stop_step\<^sup>*\<^sup>* stop_sample ?g2" by (meson converse_rtranclp_into_rtranclp r_into_rtranclp)
  have "stop_begin stop_sample" by (simp add: stop_begin_def stop_sample_def)
  from stop_waits_five_seconds [OF r this] have "sg_cmd ?g2 \<and> \<not> sg_closed ?g2" by (simp add: stop_sample_def)
  then show ?thesis using r by (intro exI [of _ ?g2]) (simp add: stop_sample_def)
qed

end
