(* ===== verification/Panel_Client.thy ===== *)
theory Panel_Client
  imports Conf Sha2 Panel_Node
begin

text \<open>
  The HTTP client of \<open>internal/panel/client.go\<close>: what it asks the panel, what it makes of the
  answer, and what it remembers between calls. The network is a function from requests to
  answers; resty, its retries and timeouts, and the JSON and msgpack decoders are code
  outside the repository and come in through it and through the decoders, which are
  arguments. A response carries what the client reads of it.
\<close>

record Client =
  cl_APIHost :: string
  cl_Token :: string
  cl_NodeID :: int
  cl_nodeEtag :: string
  cl_userEtag :: string
  cl_responseBodyHash :: string

text \<open>What \<open>New\<close> sets on the HTTP client: retries, timeout and the query of every request.\<close>

record transport =
  tr_RetryCount :: int
  tr_Timeout :: int64
  tr_BaseURL :: string
  tr_Query :: "(string \<times> string) list"

datatype request =
    GetConfig string
  | GetUsers string
  | GetAlive
  | PushTraffic "int \<rightharpoonup> int64 \<times> int64"
  | PushAlive "int \<rightharpoonup> string list"

fun requestPath :: "request \<Rightarrow> string" where
  "requestPath (GetConfig _) = ''/api/v2/server/config''"
| "requestPath (GetUsers _) = ''/api/v1/server/UniProxy/user''"
| "requestPath GetAlive = ''/api/v1/server/UniProxy/alivelist''"
| "requestPath (PushTraffic _) = ''/api/v1/server/UniProxy/push''"
| "requestPath (PushAlive _) = ''/api/v1/server/UniProxy/alive''"

record response =
  rp_Status :: int
  rp_ETag :: string
  rp_ContentType :: string
  rp_Body :: string

text \<open>A call ends in an error, in no response (or one without its raw form), or in a response.\<close>

datatype call_error = Canceled | DeadlineExceeded | TransportError string

datatype http = HttpError call_error | HttpNil | HttpResponse response

type_synonym net = "request \<Rightarrow> http"

datatype panel_error =
    CallError call_error
  | NilResponse
  | StatusError int string
  | DecodeNode
  | InvalidNode node_error
  | DecodeUsers

definition NewClient :: "NodeConfig \<Rightarrow> Client \<times> transport" where
  "NewClient c =
     (\<lparr>cl_APIHost = nc_APIHost c, cl_Token = nc_Key c, cl_NodeID = nc_NodeID c,
       cl_nodeEtag = '''', cl_userEtag = '''', cl_responseBodyHash = ''''\<rparr>,
      \<lparr>tr_RetryCount = (case nc_RetryCount c of None \<Rightarrow> DefaultNodeRetryCount | Some n \<Rightarrow> n),
       tr_Timeout = seconds (if nc_Timeout c > 0 then nc_Timeout c else DefaultNodeTimeout),
       tr_BaseURL = nc_APIHost c,
       tr_Query = [(''node_type'', ''v2node''), (''node_id'', Itoa (nc_NodeID c)), (''token'', nc_Key c)]\<rparr>)"

section \<open>Status errors\<close>

definition shortResponseBody :: "string \<Rightarrow> string" where
  "shortResponseBody body =
     (let text = TrimSpace body in if length text > 256 then take 256 text else text)"

definition checkResponseStatus :: "response \<Rightarrow> panel_error option" where
  "checkResponseStatus resp =
     (if rp_Status resp < 400 then None
      else Some (StatusError (rp_Status resp) (shortResponseBody (rp_Body resp))))"

definition statusErrorText :: "int \<Rightarrow> string \<Rightarrow> string" where
  "statusErrorText code body = ''panel request failed: status='' @ Itoa code @ '' body='' @ body"

fun IsAuthStatusError :: "panel_error \<Rightarrow> bool" where
  "IsAuthStatusError (StatusError code _) \<longleftrightarrow> code = 401 \<or> code = 403"
| "IsAuthStatusError _ \<longleftrightarrow> False"

text \<open>\<open>errors.Is\<close> with the two errors of a context.\<close>

fun contextError :: "panel_error \<Rightarrow> bool" where
  "contextError (CallError Canceled) \<longleftrightarrow> True"
| "contextError (CallError DeadlineExceeded) \<longleftrightarrow> True"
| "contextError _ \<longleftrightarrow> False"

section \<open>The calls\<close>

definition bodyHash :: "string \<Rightarrow> string" where
  "bodyHash body = hexEncode (Sum256 (bytes_of body))"

text \<open>\<open>None\<close> is the nil node of an unchanged configuration.\<close>

definition GetNodeInfo ::
  "(string \<Rightarrow> NodeInfo option) \<Rightarrow> (float64 \<Rightarrow> int64) \<Rightarrow> net \<Rightarrow> Client \<Rightarrow> (panel_error + NodeInfo option) \<times> Client"
where
  "GetNodeInfo decode fconv net c =
     (case net (GetConfig (cl_nodeEtag c)) of
        HttpError e \<Rightarrow> (Inl (CallError e), c)
      | HttpNil \<Rightarrow> (Inl NilResponse, c)
      | HttpResponse resp \<Rightarrow>
          if rp_Status resp = 304 then (Inr None, c)
          else case checkResponseStatus resp of
            Some e \<Rightarrow> (Inl e, c)
          | None \<Rightarrow>
              if cl_responseBodyHash c = bodyHash (rp_Body resp) then (Inr None, c)
              else
                let c1 = c\<lparr>cl_responseBodyHash := bodyHash (rp_Body resp),
                           cl_nodeEtag := TrimQuotes (rp_ETag resp)\<rparr>
                in case decode (rp_Body resp) of
                     None \<Rightarrow> (Inl DecodeNode, c1)
                   | Some cfg \<Rightarrow>
                       (case Normalize fconv cfg (cl_NodeID c1) (cl_APIHost c1) of
                          (Some e, _) \<Rightarrow> (Inl (InvalidNode e), c1)
                        | (None, cfg') \<Rightarrow> (Inr (Some cfg'), c1)))"

text \<open>
  The two decoders give the body's user list, itself nil when the body has none; \<open>Inr None\<close>
  is a nil slice, for an unchanged list or for such a body.
\<close>

definition GetUserList ::
  "(string \<Rightarrow> UserInfo list option option) \<Rightarrow> (string \<Rightarrow> UserInfo list option option) \<Rightarrow> net \<Rightarrow> Client \<Rightarrow>
   (panel_error + UserInfo list option) \<times> Client"
where
  "GetUserList msgpack json net c =
     (case net (GetUsers (cl_userEtag c)) of
        HttpError e \<Rightarrow> (Inl (CallError e), c)
      | HttpNil \<Rightarrow> (Inl NilResponse, c)
      | HttpResponse resp \<Rightarrow>
          if rp_Status resp = 304 then (Inr None, c)
          else case checkResponseStatus resp of
            Some e \<Rightarrow> (Inl e, c)
          | None \<Rightarrow>
              (case (if contains (rp_ContentType resp) ''application/x-msgpack''
                     then msgpack (rp_Body resp) else json (rp_Body resp)) of
                 None \<Rightarrow> (Inl DecodeUsers, c)
               | Some users \<Rightarrow> (Inr users, c\<lparr>cl_userEtag := rp_ETag resp\<rparr>)))"

text \<open>Every failure but a context error is an empty map.\<close>

definition GetUserAlive ::
  "(string \<Rightarrow> (int \<rightharpoonup> int) option option) \<Rightarrow> net \<Rightarrow> panel_error + (int \<rightharpoonup> int)"
where
  "GetUserAlive decode net =
     (case net GetAlive of
        HttpError e \<Rightarrow> if contextError (CallError e) then Inl (CallError e) else Inr Map.empty
      | HttpNil \<Rightarrow> Inr Map.empty
      | HttpResponse resp \<Rightarrow>
          if rp_Status resp \<ge> 399 then Inr Map.empty
          else case decode (rp_Body resp) of
            Some (Some alive) \<Rightarrow> Inr alive
          | _ \<Rightarrow> Inr Map.empty)"

definition addTraffic :: "UserTraffic \<Rightarrow> (int \<rightharpoonup> int64 \<times> int64) \<Rightarrow> int \<rightharpoonup> int64 \<times> int64" where
  "addTraffic traffic m =
     (let current = zero_of (0, 0) m (ut_UID traffic)
      in m(ut_UID traffic \<mapsto> (wrap64 (fst current + ut_Upload traffic), wrap64 (snd current + ut_Download traffic))))"

definition trafficData :: "UserTraffic list \<Rightarrow> int \<rightharpoonup> int64 \<times> int64" where
  "trafficData traffic = fold addTraffic traffic Map.empty"

definition postResult :: "http \<Rightarrow> panel_error option" where
  "postResult res =
     (case res of
        HttpError e \<Rightarrow> Some (CallError e)
      | HttpNil \<Rightarrow> Some NilResponse
      | HttpResponse resp \<Rightarrow> checkResponseStatus resp)"

definition ReportUserTraffic :: "UserTraffic list \<Rightarrow> net \<Rightarrow> panel_error option" where
  "ReportUserTraffic traffic net = postResult (net (PushTraffic (trafficData traffic)))"

definition ReportNodeOnlineUsers :: "(int \<rightharpoonup> string list) \<Rightarrow> net \<Rightarrow> panel_error option" where
  "ReportNodeOnlineUsers data net = postResult (net (PushAlive data))"

section \<open>What the panel is told\<close>

definition uid_total :: "(UserTraffic \<Rightarrow> int) \<Rightarrow> int \<Rightarrow> UserTraffic list \<Rightarrow> int" where
  "uid_total f uid ts = sum_list (map (\<lambda>t. if ut_UID t = uid then f t else 0) ts)"

lemma uid_total_simps [simp]:
  "uid_total f uid [] = 0"
  "uid_total f uid (t # ts) = (if ut_UID t = uid then f t else 0) + uid_total f uid ts"
  by (simp_all add: uid_total_def)

lemma uid_total_none: "uid \<notin> ut_UID ` set ts \<Longrightarrow> uid_total f uid ts = 0"
  unfolding uid_total_def by (rule sum_list_none)

lemma addTraffic_other: "ut_UID t \<noteq> uid \<Longrightarrow> addTraffic t m uid = m uid"
  by (simp add: addTraffic_def Let_def)

lemma addTraffic_own:
  "addTraffic t m (ut_UID t) = Some (wrap64 (fst (zero_of (0, 0) m (ut_UID t)) + ut_Upload t),
     wrap64 (snd (zero_of (0, 0) m (ut_UID t)) + ut_Download t))"
  by (simp add: addTraffic_def Let_def)

lemma trafficData_fold:
  "fold addTraffic ts m uid =
    (if uid \<in> ut_UID ` set ts
     then Some (wrap64 (fst (zero_of (0, 0) m uid) + uid_total ut_Upload uid ts),
                wrap64 (snd (zero_of (0, 0) m uid) + uid_total ut_Download uid ts))
     else m uid)"
proof (induction ts arbitrary: m)
  case (Cons t ts)
  have step: "fold addTraffic (t # ts) m uid = fold addTraffic ts (addTraffic t m) uid" by simp
  show ?case
  proof (cases "ut_UID t = uid")
    case True
    then have own: "addTraffic t m uid = Some (wrap64 (fst (zero_of (0, 0) m uid) + ut_Upload t),
        wrap64 (snd (zero_of (0, 0) m uid) + ut_Download t))"
      using addTraffic_own [of t m] by simp
    show ?thesis
      unfolding step Cons.IH using True by (auto simp: own uid_total_none add.assoc)
  next
    case False
    then show ?thesis
      unfolding step Cons.IH by (auto simp: addTraffic_other zero_of_def)
  qed
qed simp

text \<open>
  C17. The body pushed to the panel has an entry for exactly the user ids of the report, and
  each entry is the sum of that id's uploads and downloads (in 64-bit arithmetic): two UUIDs
  of one id are added up, none is overwritten. The call succeeds exactly when the panel
  answers with a status under 400.
\<close>

theorem pushed_traffic_sums:
  "trafficData ts uid =
    (if uid \<in> ut_UID ` set ts
     then Some (wrap64 (uid_total ut_Upload uid ts), wrap64 (uid_total ut_Download uid ts)) else None) \<and>
   (ReportUserTraffic ts net = None \<longleftrightarrow>
    (\<exists>resp. net (PushTraffic (trafficData ts)) = HttpResponse resp \<and> rp_Status resp < 400))"
  by (auto simp: trafficData_def trafficData_fold ReportUserTraffic_def postResult_def checkResponseStatus_def
      split: http.splits if_splits)

section \<open>Polling the configuration\<close>

lemma bodyHash_nonempty [simp]: "bodyHash b \<noteq> ''''" "[] \<noteq> bodyHash b"
  using sha256.hex_digest_nonempty [of "bytes_of b"] by (simp_all add: bodyHash_def)

lemma GetNodeInfo_client:
  "GetNodeInfo decode fconv net c = (r, c') \<Longrightarrow> cl_NodeID c' = cl_NodeID c \<and> cl_APIHost c' = cl_APIHost c"
  by (auto simp: GetNodeInfo_def Let_def split: http.splits if_splits option.splits prod.splits)

text \<open>What a poll delivers, and the polls of a client one after the other.\<close>

definition delivered_node :: "(panel_error + NodeInfo option) \<Rightarrow> NodeInfo option" where
  "delivered_node r = (case r of Inr (Some n) \<Rightarrow> Some n | _ \<Rightarrow> None)"

fun polls :: "(string \<Rightarrow> NodeInfo option) \<Rightarrow> (float64 \<Rightarrow> int64) \<Rightarrow> http list \<Rightarrow> Client \<Rightarrow> NodeInfo list" where
  "polls decode fconv [] c = []"
| "polls decode fconv (a # as) c =
     (case GetNodeInfo decode fconv (\<lambda>_. a) c of
        (r, c') \<Rightarrow> (case delivered_node r of None \<Rightarrow> polls decode fconv as c' | Some n \<Rightarrow> n # polls decode fconv as c'))"

text \<open>An answer that brings a configuration the node can use, or brings none.\<close>

definition good_body :: "(string \<Rightarrow> NodeInfo option) \<Rightarrow> string \<Rightarrow> bool" where
  "good_body decode b \<longleftrightarrow> (case decode b of None \<Rightarrow> False | Some cfg \<Rightarrow> acceptable cfg)"

definition body_of :: "http \<Rightarrow> string option" where
  "body_of a = (case a of HttpResponse resp \<Rightarrow>
     if rp_Status resp \<noteq> 304 \<and> rp_Status resp < 400 then Some (rp_Body resp) else None | _ \<Rightarrow> None)"

definition bodies :: "http list \<Rightarrow> string list" where
  "bodies as = List.map_filter body_of as"

lemma poll_without_body:
  "body_of a = None \<Longrightarrow> snd (GetNodeInfo decode fconv (\<lambda>_. a) c) = c \<and>
    delivered_node (fst (GetNodeInfo decode fconv (\<lambda>_. a) c)) = None"
  by (auto simp: body_of_def GetNodeInfo_def delivered_node_def checkResponseStatus_def split: http.splits if_splits)

lemma poll_with_body:
  assumes "body_of a = Some b" and "good_body decode b"
  obtains c' where "GetNodeInfo decode fconv (\<lambda>_. a) c =
      (if cl_responseBodyHash c = bodyHash b then (Inr None, c)
       else (Inr (Some (settleNode fconv (the (decode b)) (cl_NodeID c) (cl_APIHost c))), c'))"
    "cl_responseBodyHash c' = bodyHash b" "cl_NodeID c' = cl_NodeID c" "cl_APIHost c' = cl_APIHost c"
proof -
  obtain resp where r: "a = HttpResponse resp" "rp_Status resp \<noteq> 304" "rp_Status resp < 400" "rp_Body resp = b"
    using assms(1) by (auto simp: body_of_def split: http.splits if_splits)
  obtain cfg where cfg: "decode b = Some cfg" "acceptable cfg"
    using assms(2) by (auto simp: good_body_def split: option.splits)
  let ?c = "c\<lparr>cl_responseBodyHash := bodyHash b, cl_nodeEtag := TrimQuotes (rp_ETag resp)\<rparr>"
  show thesis
    by (rule that [of ?c])
      (use r cfg in \<open>simp_all add: GetNodeInfo_def checkResponseStatus_def Normalize_ok Let_def\<close>)
qed

text \<open>The reference: adjacent bodies with one hash are one configuration.\<close>

fun changes :: "string \<Rightarrow> string list \<Rightarrow> string list" where
  "changes h [] = []"
| "changes h (b # bs) = (if bodyHash b = h then changes h bs else b # changes (bodyHash b) bs)"

lemma changes_remdups:
  assumes "inj_on bodyHash (insert b0 (set bs))"
  shows "changes (bodyHash b0) bs = tl (remdups_adj (b0 # bs))"
  using assms
proof (induction bs arbitrary: b0)
  case (Cons b bs)
  then have "bodyHash b = bodyHash b0 \<longleftrightarrow> b = b0" by (auto simp: inj_on_def)
  moreover have "inj_on bodyHash (insert b (set bs))" using Cons.prems by (auto simp: inj_on_def)
  moreover have "remdups_adj (b # bs) = b # tl (remdups_adj (b # bs))" by (simp add: remdups_adj_Cons split: list.split)
  ultimately show ?case using Cons.IH [of b] by (auto simp: eq_commute)
qed simp

lemma polls_changes:
  assumes "\<And>b. b \<in> set (bodies as) \<Longrightarrow> good_body decode b"
  shows "polls decode fconv as c =
    map (\<lambda>b. settleNode fconv (the (decode b)) (cl_NodeID c) (cl_APIHost c)) (changes (cl_responseBodyHash c) (bodies as))"
  using assms
proof (induction as arbitrary: c)
  case (Cons a as)
  show ?case
  proof (cases "body_of a")
    case None
    then have "bodies (a # as) = bodies as" by (simp add: bodies_def List.map_filter_simps)
    then show ?thesis
      using Cons poll_without_body [OF None, of decode fconv c]
      by (cases "GetNodeInfo decode fconv (\<lambda>_. a) c") (simp split: option.split)
  next
    case (Some b)
    then have bs: "bodies (a # as) = b # bodies as" by (simp add: bodies_def List.map_filter_simps)
    then have good: "good_body decode b" using Cons.prems by simp
    obtain c' where c': "GetNodeInfo decode fconv (\<lambda>_. a) c =
        (if cl_responseBodyHash c = bodyHash b then (Inr None, c)
         else (Inr (Some (settleNode fconv (the (decode b)) (cl_NodeID c) (cl_APIHost c))), c'))"
      "cl_responseBodyHash c' = bodyHash b" "cl_NodeID c' = cl_NodeID c" "cl_APIHost c' = cl_APIHost c"
      by (rule poll_with_body [OF Some good])
    have "\<And>x. x \<in> set (bodies as) \<Longrightarrow> good_body decode x" using Cons.prems bs by simp
    note IH = Cons.IH [OF this]
    show ?thesis using c' by (auto simp: bs delivered_node_def IH eq_commute)
  qed
qed (simp add: bodies_def List.map_filter_simps)

text \<open>
  C16. Polling delivers each configuration change once. Whatever mix of unchanged answers,
  failures and configurations a new client meets, the nodes it hands on are the received
  configurations with consecutive repetitions dropped, in order, each normalized for this
  client; with or without ETags. (Bodies are told apart by SHA-256, and every body received
  is one the node can use.)
\<close>

theorem polling_delivers_changes:
  assumes "fst (NewClient conf) = c" and "\<And>b. b \<in> set (bodies as) \<Longrightarrow> good_body decode b"
    and "inj_on bodyHash (set (bodies as))"
  shows "polls decode fconv as c =
    map (\<lambda>b. settleNode fconv (the (decode b)) (nc_NodeID conf) (nc_APIHost conf)) (remdups_adj (bodies as))"
proof -
  have c: "cl_responseBodyHash c = ''''" "cl_NodeID c = nc_NodeID conf" "cl_APIHost c = nc_APIHost conf"
    using assms(1) by (auto simp: NewClient_def)
  have "changes '''' bs = remdups_adj bs" if "inj_on bodyHash (set bs)" for bs
  proof (cases bs)
    case (Cons b rest)
    then show ?thesis using changes_remdups [of b rest] that by (simp add: remdups_adj_Cons split: list.split)
  qed simp
  then show ?thesis using polls_changes [OF assms(2)] assms(3) c by simp
qed

definition okResponse :: "string \<Rightarrow> http" where
  "okResponse b = HttpResponse \<lparr>rp_Status = 200, rp_ETag = '''', rp_ContentType = '''', rp_Body = b\<rparr>"

definition notModified :: http where
  "notModified = HttpResponse \<lparr>rp_Status = 304, rp_ETag = '''', rp_ContentType = '''', rp_Body = ''''\<rparr>"

definition sampleConf :: NodeConfig where
  "sampleConf = \<lparr>nc_APIHost = ''h'', nc_NodeID = 7, nc_Key = ''t'', nc_Timeout = 0, nc_RetryCount = None\<rparr>"

definition sampleDecode :: "string \<Rightarrow> NodeInfo option" where
  "sampleDecode b = (if b = ''cfg'' then Some sample_node else None)"

theorem polling_delivers_changes_witness:
  "polls sampleDecode (\<lambda>_. 0) [okResponse ''cfg'', notModified, HttpNil, okResponse ''cfg''] (fst (NewClient sampleConf)) =
    [settleNode (\<lambda>_. 0) sample_node 7 ''h'']"
proof -
  let ?as = "[okResponse ''cfg'', notModified, HttpNil, okResponse ''cfg'']"
  have b: "bodies ?as = [''cfg'', ''cfg'']"
    by (simp add: bodies_def List.map_filter_simps body_of_def okResponse_def notModified_def)
  have "polls sampleDecode (\<lambda>_. 0) ?as (fst (NewClient sampleConf)) =
    map (\<lambda>b. settleNode (\<lambda>_. 0) (the (sampleDecode b)) (nc_NodeID sampleConf) (nc_APIHost sampleConf)) (remdups_adj (bodies ?as))"
    by (rule polling_delivers_changes [OF refl]) (use b acceptable_sample in \<open>auto simp: good_body_def sampleDecode_def\<close>)
  then show ?thesis by (simp add: b sampleDecode_def sampleConf_def)
qed

text \<open>
  C36. A configuration the node cannot use is reported once and then passes for unchanged: its
  hash and ETag are remembered before it is decoded and checked, so the same answer is an
  error the first time and no change from then on.
\<close>

theorem bad_config_reported_once:
  assumes "body_of a = Some b" and "\<not> good_body decode b" and "cl_responseBodyHash c \<noteq> bodyHash b"
  shows "\<exists>e c1. GetNodeInfo decode fconv (\<lambda>_. a) c = (Inl e, c1) \<and> \<not> contextError e \<and>
    GetNodeInfo decode fconv (\<lambda>_. a) c1 = (Inr None, c1)"
proof -
  obtain resp where r: "a = HttpResponse resp" "rp_Status resp \<noteq> 304" "rp_Status resp < 400" "rp_Body resp = b"
    using assms(1) by (auto simp: body_of_def split: http.splits if_splits)
  let ?c = "c\<lparr>cl_responseBodyHash := bodyHash b, cl_nodeEtag := TrimQuotes (rp_ETag resp)\<rparr>"
  have "\<exists>e. GetNodeInfo decode fconv (\<lambda>_. a) c = (Inl e, ?c) \<and> \<not> contextError e"
  proof (cases "decode b")
    case None
    then show ?thesis using r assms(3) by (simp add: GetNodeInfo_def checkResponseStatus_def Let_def)
  next
    case (Some cfg)
    then have "fst (Normalize fconv cfg (cl_NodeID c) (cl_APIHost c)) \<noteq> None"
      using assms(2) by (simp add: good_body_def Normalize_acceptable)
    then show ?thesis
      using Some r assms(3)
      by (cases "Normalize fconv cfg (cl_NodeID c) (cl_APIHost c)") (auto simp: GetNodeInfo_def checkResponseStatus_def Let_def)
  qed
  moreover have "GetNodeInfo decode fconv (\<lambda>_. a) ?c = (Inr None, ?c)"
    using r by (simp add: GetNodeInfo_def checkResponseStatus_def)
  ultimately show ?thesis by blast
qed

theorem bad_config_reported_once_witness:
  "\<exists>c1. snd (GetNodeInfo sampleDecode (\<lambda>_. 0) (\<lambda>_. okResponse ''junk'') (fst (NewClient sampleConf))) = c1 \<and>
    GetNodeInfo sampleDecode (\<lambda>_. 0) (\<lambda>_. okResponse ''junk'') c1 = (Inr None, c1)"
proof -
  have "body_of (okResponse ''junk'') = Some ''junk''" "\<not> good_body sampleDecode ''junk''"
    "cl_responseBodyHash (fst (NewClient sampleConf)) \<noteq> bodyHash ''junk''"
    by (simp_all add: body_of_def okResponse_def good_body_def sampleDecode_def NewClient_def)
  from bad_config_reported_once [OF this, of "\<lambda>_. 0"] show ?thesis by (elim exE conjE) simp
qed

end
