(* ===== verification/Servers.thy ===== *)
theory Servers
  imports External Panel_Client
begin

text \<open>
  \<open>runtime.Server\<close> (\<open>internal/runtime/server.go\<close>) as the controller holds it: the sum of the
  two engines, each method a dispatch. What a step of the controller meets in the world (the
  panel's answers, the clock, the decoders, the outcome of a listen or of an exec) is the
  record \<open>env\<close>; the disk is threaded through. The server, whichever engine it is, keeps the
  contract of \<open>traffic_server\<close>.
\<close>

record panelSnapshot =
  sn_APIHost :: string
  sn_NodeID :: int
  sn_Node :: "NodeInfo option"
  sn_Users :: "UserInfo list"
  sn_Alive :: "int \<rightharpoonup> int"
  sn_SavedAt :: int64

record ('p, 't, 'sc) env =
  en_cfg :: "('p, 't) cfgenv"
  en_key :: "'sc keyenv"
  en_net :: net
  en_now :: int64
  en_order :: "string iter"
  en_listens :: "string \<Rightarrow> bool"
  en_starts :: bool
  en_fconv :: "float64 \<Rightarrow> int64"
  en_decodeNode :: "string \<Rightarrow> NodeInfo option"
  en_msgpackUsers :: "string \<Rightarrow> UserInfo list option option"
  en_jsonUsers :: "string \<Rightarrow> UserInfo list option option"
  en_decodeAlive :: "string \<Rightarrow> (int \<rightharpoonup> int) option option"
  en_encodeSnapshot :: "panelSnapshot \<Rightarrow> string option"
  en_decodeSnapshot :: "string \<Rightarrow> panelSnapshot option"

section \<open>The server behind the interface\<close>

datatype 't server = EmbeddedServer "'t embedded" | ExternalServer external

datatype server_error = FromEmbedded embedded_error | FromKeys key_error | FromExternal external_error

fun server_keyStore :: "'t server \<Rightarrow> ClientKeyStore" where
  "server_keyStore (EmbeddedServer e) = em_keyStore e"
| "server_keyStore (ExternalServer e) = ex_keyStore e"

fun server_Start :: "('p, 't, 'sc) env \<Rightarrow> 't server \<Rightarrow> os \<Rightarrow> server_error option \<times> 't server \<times> os" where
  "server_Start env (EmbeddedServer e) w =
     (case Start (en_listens env) e of (r, e') \<Rightarrow> (map_option FromEmbedded r, EmbeddedServer e', w))"
| "server_Start env (ExternalServer e) w =
     (case ext_Start (en_cfg env) (en_starts env) e w of (r, e', w') \<Rightarrow> (map_option FromExternal r, ExternalServer e', w'))"

fun server_Close :: "'t server \<Rightarrow> 't server" where
  "server_Close (EmbeddedServer e) = EmbeddedServer (snd (Close e))"
| "server_Close (ExternalServer e) = ExternalServer (ext_Close e)"

fun server_SetAliveList :: "(int \<rightharpoonup> int) \<Rightarrow> 't server \<Rightarrow> 't server" where
  "server_SetAliveList alive (EmbeddedServer e) = EmbeddedServer (SetAliveList alive e)"
| "server_SetAliveList alive (ExternalServer e) = ExternalServer (ext_SetAliveList alive e)"

fun server_UpdateUsers ::
  "('p, 't, 'sc) env \<Rightarrow> UserInfo list \<Rightarrow> UserInfo list \<Rightarrow> UserInfo list \<Rightarrow> UserInfo list option \<Rightarrow> 't server \<Rightarrow> os \<Rightarrow>
   server_error option \<times> 't server \<times> os"
where
  "server_UpdateUsers env added deleted modified full (EmbeddedServer e) w =
     (case UpdateUsers (en_key env) (en_order env) added deleted modified full e w of
        (r, e', w') \<Rightarrow> (map_option FromKeys r, EmbeddedServer e', w'))"
| "server_UpdateUsers env added deleted modified full (ExternalServer e) w =
     (case ext_UpdateUsers (en_cfg env) (en_key env) (en_order env) (en_starts env) added deleted modified full e w of
        (r, e', w') \<Rightarrow> (map_option FromExternal r, ExternalServer e', w'))"

fun server_GetUserTrafficSlice :: "('p, 't, 'sc) env \<Rightarrow> int \<Rightarrow> 't server \<Rightarrow> UserTraffic list" where
  "server_GetUserTrafficSlice env m (EmbeddedServer e) = GetUserTrafficSlice (en_order env) m e"
| "server_GetUserTrafficSlice env m (ExternalServer e) = ext_GetUserTrafficSlice (en_order env) m e"

fun server_ConfirmUserTraffic :: "('p, 't, 'sc) env \<Rightarrow> UserTraffic list \<Rightarrow> 't server \<Rightarrow> 't server" where
  "server_ConfirmUserTraffic env ts (EmbeddedServer e) =
     EmbeddedServer (if ts = [] then e else ConfirmUserTraffic (en_order env) ts e)"
| "server_ConfirmUserTraffic env ts (ExternalServer e) = ExternalServer (ext_ConfirmUserTraffic (en_order env) ts e)"

fun server_GetOnlineDevice :: "('p, 't, 'sc) env \<Rightarrow> 't server \<Rightarrow> OnlineUser list \<times> 't server" where
  "server_GetOnlineDevice env (EmbeddedServer e) =
     (case GetOnlineDevice (en_order env) (en_now env) e of (out, e') \<Rightarrow> (out, EmbeddedServer e'))"
| "server_GetOnlineDevice env (ExternalServer e) =
     (case ext_GetOnlineDevice (en_order env) (en_now env) e of (out, e') \<Rightarrow> (out, ExternalServer e'))"

fun server_users :: "'t server \<Rightarrow> string \<rightharpoonup> UserInfo" where
  "server_users (EmbeddedServer e) = em_users e"
| "server_users (ExternalServer e) = ex_users e"

fun SortedUserHashes :: "'t server \<Rightarrow> (string \<rightharpoonup> int) option" where
  "SortedUserHashes (EmbeddedServer e) = Some (DebugUserHashMap e)"
| "SortedUserHashes (ExternalServer e) = None"

section \<open>The server keeps the contract\<close>

text \<open>Where a server's traffic comes from, and what else happens to it.\<close>

datatype source = Connection nat | EventOf int64 string

datatype ('p, 't, 'sc) server_op = OnEmbedded "'sc emb_op" | OnExternal "('p, 't) cfgenv" "'sc ext_op"

fun server_move :: "source \<Rightarrow> int \<Rightarrow> int \<Rightarrow> 't server \<Rightarrow> 't server" where
  "server_move (Connection c) a b (EmbeddedServer e) = EmbeddedServer (connMove c a b e)"
| "server_move (EventOf now h) a b (ExternalServer e) = ExternalServer (importEvent now (trafficEvent h a b) e)"
| "server_move _ a b s = s"

fun server_other :: "('p, 't, 'sc) server_op \<Rightarrow> 't server \<Rightarrow> 't server" where
  "server_other (OnEmbedded x) (EmbeddedServer e) = EmbeddedServer (emb_other x e)"
| "server_other (OnExternal E x) (ExternalServer e) = ExternalServer (ext_other E x e)"
| "server_other _ s = s"

fun server_owner :: "source \<Rightarrow> 't server \<Rightarrow> string option" where
  "server_owner (Connection c) (EmbeddedServer e) = ownerConn c e"
| "server_owner (EventOf now h) (ExternalServer e) = ownerHash h e"
| "server_owner _ s = None"

fun server_pending :: "side \<Rightarrow> string \<Rightarrow> 't server \<Rightarrow> int" where
  "server_pending d u (EmbeddedServer e) = pending_of d u e"
| "server_pending d u (ExternalServer e) = ext_pending_of d u e"

fun server_ok :: "'t server \<Rightarrow> bool" where
  "server_ok (EmbeddedServer e) = emb_ok e"
| "server_ok (ExternalServer e) = ext_ok e"

interpretation any_server: traffic_server server_ok "server_GetUserTrafficSlice env" "server_ConfirmUserTraffic env'"
  server_move server_other server_owner server_pending for env env'
proof unfold_locales
  fix s :: "'t server" and d u t m and env :: "('p, 't, 'sc) env"
  assume ok: "server_ok s"
  then show "is_count (server_pending d u s)"
    by (cases s) (simp_all add: embedded_server.pending_count external_server.pending_count)
  show "distinct (map ut_UUID (server_GetUserTrafficSlice env m s))"
    using ok by (cases s) (simp_all add: embedded_server.gather_once external_server.gather_once)
  assume "t \<in> set (server_GetUserTrafficSlice env m s)"
  then show "traffic_of d t = server_pending d (ut_UUID t) s" "ut_UUID t \<noteq> ''''"
    using ok embedded_server.gather_pending embedded_server.gather_named external_server.gather_pending
      external_server.gather_named by (cases s; fastforce)+
next
  fix s :: "'t server" and d u ts and env' :: "('p, 't, 'sc) env"
  assume ok: "server_ok s" and ts: "\<And>t. t \<in> set ts \<Longrightarrow> proper_traffic t"
  then show "server_ok (server_ConfirmUserTraffic env' ts s)"
    by (cases s) (simp_all add: embedded_server.confirm_inv external_server.confirm_inv)
  have "0 \<le> server_pending d u s" using ok
    by (cases s) (use embedded_server.pending_count external_server.pending_count in \<open>auto simp: is_count_def\<close>)
  then show "server_pending d u (server_ConfirmUserTraffic env' ts s) = max 0 (server_pending d u s - reported d u ts)"
    using ok ts by (cases s) (simp_all add: embedded_server.confirm_pending external_server.confirm_pending)
next
  fix s :: "'t server" and d u a b c
  assume "server_ok s" "0 \<le> a" "0 \<le> b"
    "\<And>u. server_owner c s = Some u \<Longrightarrow> is_count (server_pending Up u s + a) \<and> is_count (server_pending Down u s + b)"
  then show "server_ok (server_move c a b s)"
    "server_pending d u (server_move c a b s) = server_pending d u s + (if server_owner c s = Some u then pick d a b else 0)"
    by (cases c; cases s; simp add: embedded_server.move_inv embedded_server.move_pending
        external_server.move_inv external_server.move_pending)+
next
  fix s :: "'t server" and x :: "('p, 't, 'sc) server_op" and d u
  assume "server_ok s"
  then show "server_ok (server_other x s)" "server_pending d u (server_other x s) = server_pending d u s"
    by (cases x; cases s; simp add: embedded_server.other_inv embedded_server.other_pending
        external_server.other_inv external_server.other_pending)+
qed

text \<open>
  What the controller does to a server while it runs, as one of these operations; none of them
  starts it.
\<close>

fun tame :: "('p, 't, 'sc) server_op \<Rightarrow> bool" where
  "tame (OnExternal E (ExtStart b w)) \<longleftrightarrow> False"
| "tame _ \<longleftrightarrow> True"

lemma server_ops:
  "\<exists>x :: ('p, 't, 'sc) server_op. tame x \<and> server_SetAliveList alive s = server_other x s"
  "\<exists>x :: ('p, 't, 'sc) server_op. tame x \<and>
    fst (snd (server_UpdateUsers env added deleted modified full s w)) = server_other x s"
  "\<exists>x :: ('p, 't, 'sc) server_op. tame x \<and> snd (server_GetOnlineDevice env s) = server_other x s"
  for s :: "'t server" and env :: "('p, 't, 'sc) env"
proof -
  show "\<exists>x :: ('p, 't, 'sc) server_op. tame x \<and> server_SetAliveList alive s = server_other x s"
  proof (cases s)
    case (EmbeddedServer e)
    then show ?thesis by (intro exI [of _ "OnEmbedded (AliveOp alive)"]) simp
  next
    case (ExternalServer e)
    then show ?thesis by (intro exI [of _ "OnExternal undefined (ExtAlive alive)"]) simp
  qed
  show "\<exists>x :: ('p, 't, 'sc) server_op. tame x \<and>
    fst (snd (server_UpdateUsers env added deleted modified full s w)) = server_other x s"
  proof (cases s)
    case (EmbeddedServer e)
    then show ?thesis
      by (intro exI [of _ "OnEmbedded (UpdateOp (en_key env) (en_order env) added deleted modified full w)"])
        (simp add: case_prod_beta)
  next
    case (ExternalServer e)
    then show ?thesis
      by (intro exI [of _ "OnExternal (en_cfg env) (ExtUpdate (en_key env) (en_order env) (en_starts env) added deleted modified full w)"])
        (simp add: case_prod_beta)
  qed
  show "\<exists>x :: ('p, 't, 'sc) server_op. tame x \<and> snd (server_GetOnlineDevice env s) = server_other x s"
  proof (cases s)
    case (EmbeddedServer e)
    then show ?thesis
      by (intro exI [of _ "OnEmbedded (OnlineOp (en_order env) (en_now env))"]) (simp add: case_prod_beta)
  next
    case (ExternalServer e)
    then show ?thesis
      by (intro exI [of _ "OnExternal (en_cfg env) (ExtOnline (en_order env) (en_now env))"]) (simp add: case_prod_beta)
  qed
qed

end
