(* ===== verification/Controller.thy ===== *)
theory Controller
  imports Servers
begin

text \<open>
  \<open>internal/controller/controller.go\<close>: one node's control loop. It gets the node, its users and
  the alive list from the panel (or, when the panel is down, from its cache on disk), runs a
  server with them, and from then on polls the panel for changes and reports traffic and
  online users.
\<close>

section \<open>State\<close>

record 't controller =
  ct_apiClient :: Client
  ct_conf :: NodeConfig
  ct_info :: "NodeInfo option"
  ct_server :: "'t server option"
  ct_tag :: string
  ct_userList :: "UserInfo list"
  ct_reloadCh :: bool
  ct_runtime :: RuntimeConfig
  ct_keyStore :: ClientKeyStore
  ct_tasks :: "(int64 \<times> int64) option"
  ct_aliveList :: "int \<rightharpoonup> int"

definition NewController ::
  "Client \<Rightarrow> NodeConfig \<Rightarrow> RuntimeConfig \<Rightarrow> ClientKeyStore \<Rightarrow> bool \<Rightarrow> 't controller"
where
  "NewController api nodeConf runtimeConfig keyStore reloadCh =
     \<lparr>ct_apiClient = api, ct_conf = nodeConf, ct_info = None, ct_server = None, ct_tag = '''',
      ct_userList = [], ct_reloadCh = reloadCh, ct_runtime = runtimeConfig, ct_keyStore = keyStore,
      ct_tasks = None, ct_aliveList = Map.empty\<rparr>"

text \<open>\<open>reloadCh\<close> has room for one signal; it is a flag here, and a second signal is dropped.\<close>

definition triggerReload :: "'t controller \<Rightarrow> 't controller" where
  "triggerReload c = c\<lparr>ct_reloadCh := True\<rparr>"

definition panelSnapshotPath :: "'t controller \<Rightarrow> string" where
  "panelSnapshotPath c =
     JoinPath [rc_WorkingDir (ct_runtime c), ''node-'' @ Itoa (nc_NodeID (ct_conf c)), ''panel-cache.json'']"

section \<open>The panel snapshot\<close>

datatype snapshot_error =
    EmptySnapshot | InvalidSnapshot node_error | EncodeSnapshot | SaveSnapshot os_error
  | ReadSnapshot os_error | DecodeSnapshot | CachedNodeEmpty | CachedHostDiffers | CachedNodeDiffers

datatype fetch_error = FetchFailed panel_error | EmptyNode | EmptyUsers

text \<open>
  \<open>Normalize\<close> works on the node the snapshot points to, so saving gives back that node as it
  is left.
\<close>

definition savePanelSnapshot ::
  "('p, 't, 'sc) env \<Rightarrow> 't controller \<Rightarrow> NodeInfo option \<Rightarrow> UserInfo list \<Rightarrow> (int \<rightharpoonup> int) \<Rightarrow> os \<Rightarrow>
   snapshot_error option \<times> NodeInfo option \<times> os"
where
  "savePanelSnapshot env c node users alive w =
     (case node of
        None \<Rightarrow> (Some EmptySnapshot, None, w)
      | Some n \<Rightarrow>
          (case Normalize (en_fconv env) n (nc_NodeID (ct_conf c)) (cl_APIHost (ct_apiClient c)) of
             (Some err, n') \<Rightarrow> (Some (InvalidSnapshot err), Some n', w)
           | (None, n') \<Rightarrow>
               (case en_encodeSnapshot env \<lparr>sn_APIHost = cl_APIHost (ct_apiClient c), sn_NodeID = nc_NodeID (ct_conf c),
                       sn_Node = Some n', sn_Users = users, sn_Alive = alive, sn_SavedAt = en_now env\<rparr> of
                  None \<Rightarrow> (Some EncodeSnapshot, Some n', w)
                | Some body \<Rightarrow>
                    (case replaceFile (panelSnapshotPath c) body w of
                       (Some err, w') \<Rightarrow> (Some (SaveSnapshot err), Some n', w')
                     | (None, w') \<Rightarrow> (None, Some n', w')))))"

definition saveCurrentPanelSnapshot :: "('p, 't, 'sc) env \<Rightarrow> 't controller \<Rightarrow> os \<Rightarrow> 't controller \<times> os" where
  "saveCurrentPanelSnapshot env c w =
     (if ct_info c = None then (c, w)
      else case savePanelSnapshot env c (ct_info c) (ct_userList c) (ct_aliveList c) w of
        (_, n, w') \<Rightarrow> (c\<lparr>ct_info := n\<rparr>, w'))"

definition readPanelSnapshot ::
  "('p, 't, 'sc) env \<Rightarrow> 't controller \<Rightarrow> os \<Rightarrow> snapshot_error + panelSnapshot"
where
  "readPanelSnapshot env c w =
     (case ReadFile (panelSnapshotPath c) w of
        Inl err \<Rightarrow> Inl (ReadSnapshot err)
      | Inr body \<Rightarrow>
          (case en_decodeSnapshot env body of
             None \<Rightarrow> Inl DecodeSnapshot
           | Some snap \<Rightarrow>
               (case sn_Node snap of
                  None \<Rightarrow> Inl CachedNodeEmpty
                | Some n \<Rightarrow>
                    if sn_APIHost snap \<noteq> '''' \<and> sn_APIHost snap \<noteq> cl_APIHost (ct_apiClient c) then Inl CachedHostDiffers
                    else if sn_NodeID snap \<noteq> 0 \<and> sn_NodeID snap \<noteq> nc_NodeID (ct_conf c) then Inl CachedNodeDiffers
                    else case Normalize (en_fconv env) n (nc_NodeID (ct_conf c)) (cl_APIHost (ct_apiClient c)) of
                      (Some err, _) \<Rightarrow> Inl (InvalidSnapshot err)
                    | (None, n') \<Rightarrow> Inr (snap\<lparr>sn_Node := Some n'\<rparr>))))"

definition fetchPanelSnapshot ::
  "('p, 't, 'sc) env \<Rightarrow> Client \<Rightarrow> (fetch_error + NodeInfo \<times> UserInfo list \<times> (int \<rightharpoonup> int)) \<times> Client"
where
  "fetchPanelSnapshot env api =
     (case GetNodeInfo (en_decodeNode env) (en_fconv env) (en_net env) api of
        (Inl err, api1) \<Rightarrow> (Inl (FetchFailed err), api1)
      | (Inr None, api1) \<Rightarrow> (Inl EmptyNode, api1)
      | (Inr (Some node), api1) \<Rightarrow>
          (case GetUserList (en_msgpackUsers env) (en_jsonUsers env) (en_net env) api1 of
             (Inl err, api2) \<Rightarrow> (Inl (FetchFailed err), api2)
           | (Inr None, api2) \<Rightarrow> (Inl EmptyUsers, api2)
           | (Inr (Some users), api2) \<Rightarrow>
               (case GetUserAlive (en_decodeAlive env) (en_net env) of
                  Inl err \<Rightarrow> (Inl (FetchFailed err), api2)
                | Inr alive \<Rightarrow> (Inr (node, users, alive), api2))))"

fun authFailure :: "fetch_error \<Rightarrow> bool" where
  "authFailure (FetchFailed e) \<longleftrightarrow> IsAuthStatusError e"
| "authFailure _ \<longleftrightarrow> False"

datatype start_error = NoSnapshot fetch_error "snapshot_error option" | ServerFailed server_error

definition startupPanelSnapshot ::
  "('p, 't, 'sc) env \<Rightarrow> 't controller \<Rightarrow> os \<Rightarrow>
   (start_error + NodeInfo \<times> UserInfo list \<times> (int \<rightharpoonup> int)) \<times> 't controller \<times> os"
where
  "startupPanelSnapshot env c w =
     (case fetchPanelSnapshot env (ct_apiClient c) of
        (Inr (node, users, alive), api) \<Rightarrow>
          (case savePanelSnapshot env c (Some node) users alive w of
             (_, n, w') \<Rightarrow> (Inr (the n, users, alive), c\<lparr>ct_apiClient := api\<rparr>, w'))
      | (Inl err, api) \<Rightarrow>
          if authFailure err then (Inl (NoSnapshot err None), c\<lparr>ct_apiClient := api\<rparr>, w)
          else (case readPanelSnapshot env c w of
                  Inl cacheErr \<Rightarrow> (Inl (NoSnapshot err (Some cacheErr)), c\<lparr>ct_apiClient := api\<rparr>, w)
                | Inr cached \<Rightarrow>
                    (Inr (the (sn_Node cached), sn_Users cached, sn_Alive cached), c\<lparr>ct_apiClient := api\<rparr>, w)))"

section \<open>Start and close\<close>

definition newServer ::
  "('p, 't, 'sc) env \<Rightarrow> RuntimeConfig \<Rightarrow> ClientKeyStore \<Rightarrow> NodeInfo \<Rightarrow> UserInfo list \<Rightarrow> (int \<rightharpoonup> int) \<Rightarrow> os \<Rightarrow>
   (server_error + 't server) \<times> ClientKeyStore \<times> os"
where
  "newServer env cfg keyStore node users alive w =
     (if EngineName cfg = EngineExternal
      then (case NewExternal (en_key env) (en_order env) node users alive cfg keyStore w of
              (Inl err, ks, w') \<Rightarrow> (Inl (FromKeys err), ks, w')
            | (Inr e, ks, w') \<Rightarrow> (Inr (ExternalServer e), ks, w'))
      else (case NewEmbedded (en_cfg env) (en_key env) (en_order env) node users alive cfg keyStore w of
              (Inl err, ks, w') \<Rightarrow> (Inl (FromEmbedded err), ks, w')
            | (Inr e, ks, w') \<Rightarrow> (Inr (EmbeddedServer e), ks, w')))"

definition startTasks :: "NodeInfo \<Rightarrow> 't controller \<Rightarrow> 't controller" where
  "startTasks node c = c\<lparr>ct_tasks := Some (ni_PullInterval node, ni_PushInterval node)\<rparr>"

definition ctl_Start ::
  "('p, 't, 'sc) env \<Rightarrow> 't controller \<Rightarrow> os \<Rightarrow> start_error option \<times> 't controller \<times> os"
where
  "ctl_Start env c w =
     (case startupPanelSnapshot env c w of
        (Inl err, c1, w1) \<Rightarrow> (Some err, c1, w1)
      | (Inr (node, users, alive), c1, w1) \<Rightarrow>
          let c2 = c1\<lparr>ct_info := Some node, ct_userList := users, ct_aliveList := alive, ct_tag := ni_Tag node\<rparr> in
          (case newServer env (ct_runtime c2) (ct_keyStore c2) node users alive w1 of
             (Inl err, ks, w2) \<Rightarrow> (Some (ServerFailed err), c2\<lparr>ct_keyStore := ks\<rparr>, w2)
           | (Inr srv, ks, w2) \<Rightarrow>
               (case server_Start env srv w2 of
                  (Some err, srv', w3) \<Rightarrow>
                    (Some (ServerFailed err), c2\<lparr>ct_keyStore := ks, ct_server := Some srv'\<rparr>, w3)
                | (None, srv', w3) \<Rightarrow>
                    (None, startTasks node (c2\<lparr>ct_keyStore := ks, ct_server := Some srv'\<rparr>), w3))))"

definition ctl_Close :: "'t controller \<Rightarrow> 't controller" where
  "ctl_Close c = c\<lparr>ct_tasks := None, ct_server := map_option server_Close (ct_server c)\<rparr>"

section \<open>Comparing user lists\<close>

text \<open>
  The loop over the new users: what is left of the old map, who is added and who modified.
  \<open>cloneUserList\<close> and \<open>cloneAliveList\<close> copy values that the model does not share.
\<close>

fun compareLoop ::
  "(string \<rightharpoonup> UserInfo) \<Rightarrow> UserInfo list \<Rightarrow> (string \<rightharpoonup> UserInfo) \<times> UserInfo list \<times> UserInfo list"
where
  "compareLoop oldMap [] = (oldMap, [], [])"
| "compareLoop oldMap (user # users) =
     (case oldMap (ui_Uuid user) of
        None \<Rightarrow> (case compareLoop oldMap users of (left, added, modified) \<Rightarrow> (left, user # added, modified))
      | Some existing \<Rightarrow>
          (case compareLoop (oldMap(ui_Uuid user := None)) users of
             (left, added, modified) \<Rightarrow>
               (left, added,
                if ui_SpeedLimit existing \<noteq> ui_SpeedLimit user \<or> ui_DeviceLimit existing \<noteq> ui_DeviceLimit user \<or>
                   ui_Email existing \<noteq> ui_Email user
                then user # modified else modified)))"

definition compareUserList ::
  "string iter \<Rightarrow> UserInfo list \<Rightarrow> UserInfo list \<Rightarrow> UserInfo list \<times> UserInfo list \<times> UserInfo list"
where
  "compareUserList it oldUsers newUsers =
     (case compareLoop (fill_map ui_Uuid Map.empty oldUsers) newUsers of
        (left, added, modified) \<Rightarrow> (listUsers it left, added, modified))"

section \<open>The two tasks\<close>

text \<open>
  One run of \<open>nodeInfoMonitor\<close>. The tasks are started after the server is there; without one
  the run has no meaning and the model leaves everything as it is.
\<close>

definition applyUsers ::
  "('p, 't, 'sc) env \<Rightarrow> UserInfo list \<Rightarrow> 't controller \<Rightarrow> os \<Rightarrow> 't controller \<times> os"
where
  "applyUsers env newUsers c w =
     (case compareUserList (en_order env) (ct_userList c) newUsers of
        (deleted, added, modified) \<Rightarrow>
          if added \<noteq> [] \<or> deleted \<noteq> [] \<or> modified \<noteq> []
          then (case ct_server c of
                  None \<Rightarrow> (c, w)
                | Some srv \<Rightarrow>
                    (case server_UpdateUsers env added deleted modified (Some newUsers) srv w of
                       (err, srv', w1) \<Rightarrow>
                         let c1 = c\<lparr>ct_server := Some srv', ct_keyStore := server_keyStore srv'\<rparr> in
                         (case err of
                            Some _ \<Rightarrow> (triggerReload c1, w1)
                          | None \<Rightarrow> saveCurrentPanelSnapshot env (c1\<lparr>ct_userList := newUsers\<rparr>) w1)))
          else saveCurrentPanelSnapshot env c w)"

definition nodeInfoMonitor ::
  "('p, 't, 'sc) env \<Rightarrow> 't controller \<Rightarrow> os \<Rightarrow> panel_error option \<times> 't controller \<times> os"
where
  "nodeInfoMonitor env c w =
     (case GetNodeInfo (en_decodeNode env) (en_fconv env) (en_net env) (ct_apiClient c) of
        (Inl err, api) \<Rightarrow> (if contextError err then Some err else None, c\<lparr>ct_apiClient := api\<rparr>, w)
      | (Inr (Some newInfo), api) \<Rightarrow>
          let c1 = c\<lparr>ct_apiClient := api\<rparr> in
          (case savePanelSnapshot env c1 (Some newInfo) (ct_userList c1) (ct_aliveList c1) w of
             (_, _, w1) \<Rightarrow> (None, triggerReload c1, w1))
      | (Inr None, api) \<Rightarrow>
          (case GetUserList (en_msgpackUsers env) (en_jsonUsers env) (en_net env) api of
             (Inl err, api1) \<Rightarrow> (if contextError err then Some err else None, c\<lparr>ct_apiClient := api1\<rparr>, w)
           | (Inr newUsers, api1) \<Rightarrow>
               let c1 = c\<lparr>ct_apiClient := api1\<rparr> in
               (case GetUserAlive (en_decodeAlive env) (en_net env) of
                  Inl err \<Rightarrow> (if contextError err then Some err else None, c1, w)
                | Inr newAlive \<Rightarrow>
                    let c2 = c1\<lparr>ct_aliveList := newAlive,
                                ct_server := map_option (server_SetAliveList newAlive) (ct_server c1)\<rparr> in
                    (None, case newUsers of
                       None \<Rightarrow> saveCurrentPanelSnapshot env c2 w
                     | Some users \<Rightarrow> applyUsers env users c2 w))))"

text \<open>The online users pushed to the panel, without those who moved too little.\<close>

definition noCountUID :: "int \<Rightarrow> UserTraffic list \<Rightarrow> int set" where
  "noCountUID deviceMin ts =
     ut_UID ` {t \<in> set ts. wrap64 (ut_Upload t + ut_Download t) < wrap64 (deviceMin * 1000)}"

definition reportData :: "int set \<Rightarrow> OnlineUser list \<Rightarrow> int \<rightharpoonup> string list" where
  "reportData skip online =
     fold (\<lambda>user m. if ou_UID user \<in> skip then m
        else m(ou_UID user \<mapsto> zero_of [] m (ou_UID user) @ [ou_IP user])) online Map.empty"

definition reportLimits :: "'t controller \<Rightarrow> int \<times> int" where
  "reportLimits c =
     (case ct_info c of None \<Rightarrow> (0, 0)
      | Some n \<Rightarrow> (bc_NodeReportMinTraffic (ni_BaseConfig n), bc_DeviceOnlineMinTraffic (ni_BaseConfig n)))"

text \<open>
  One run of \<open>reportUserTrafficTask\<close>: its error, the requests it sent and the server after it.
  \<open>meanwhile\<close> is what the server does while the panel answers the first request.
\<close>

definition reportOnline ::
  "('p, 't, 'sc) env \<Rightarrow> int \<Rightarrow> UserTraffic list \<Rightarrow> 't server \<Rightarrow> panel_error option \<times> request list \<times> 't server"
where
  "reportOnline env deviceMin ts srv =
     (case server_GetOnlineDevice env srv of
        (online, srv1) \<Rightarrow>
          let data = reportData (noCountUID deviceMin ts) online in
          if online = [] \<or> data = Map.empty then (None, [], srv1)
          else (case ReportNodeOnlineUsers data (en_net env) of
                  None \<Rightarrow> (None, [PushAlive data], srv1)
                | Some err \<Rightarrow> (if contextError err then Some err else None, [PushAlive data], srv1)))"

definition reportServer ::
  "('p, 't, 'sc) env \<Rightarrow> ('t server \<Rightarrow> 't server) \<Rightarrow> int \<Rightarrow> int \<Rightarrow> 't server \<Rightarrow>
   panel_error option \<times> request list \<times> 't server"
where
  "reportServer env meanwhile reportMin deviceMin srv =
     (let ts = server_GetUserTrafficSlice env reportMin srv in
      if ts = [] then reportOnline env deviceMin ts (meanwhile srv)
      else
        let sent = PushTraffic (trafficData ts); srv1 = meanwhile srv in
        (case ReportUserTraffic ts (en_net env) of
           Some err \<Rightarrow>
             if contextError err then (Some err, [sent], srv1)
             else (case reportOnline env deviceMin ts srv1 of (r, posts, srv2) \<Rightarrow> (r, sent # posts, srv2))
         | None \<Rightarrow>
             (case reportOnline env deviceMin ts (server_ConfirmUserTraffic env ts srv1) of
                (r, posts, srv2) \<Rightarrow> (r, sent # posts, srv2))))"

definition reportUserTrafficTask ::
  "('p, 't, 'sc) env \<Rightarrow> ('t server \<Rightarrow> 't server) \<Rightarrow> 't controller \<Rightarrow> panel_error option \<times> request list \<times> 't controller"
where
  "reportUserTrafficTask env meanwhile c =
     (case reportLimits c of
        (reportMin, deviceMin) \<Rightarrow>
          (case ct_server c of
             None \<Rightarrow> (None, [], c)
           | Some srv \<Rightarrow>
               (case reportServer env meanwhile reportMin deviceMin srv of
                  (r, posts, srv') \<Rightarrow> (r, posts, c\<lparr>ct_server := Some srv'\<rparr>))))"

section \<open>The controller and the server's contract\<close>

text \<open>
  What happens to a running controller: the server moves bytes or does something else, the
  monitor runs, or the report runs, with more of the server's activity while the panel
  answers. The ledger keeps, beside the controller, what was counted and what the panel took.
\<close>

datatype ('p, 't, 'sc) ctl_event =
    Served "(source, ('p, 't, 'sc) server_op) activity"
  | Polled "('p, 't, 'sc) env" os
  | Reported "('p, 't, 'sc) env" "(source, ('p, 't, 'sc) server_op) activity list"

primrec serve_act :: "(source, ('p, 't, 'sc) server_op) activity \<Rightarrow> 't server \<Rightarrow> 't server" where
  "serve_act (Moved c a b) s = server_move c a b s"
| "serve_act (Other x) s = server_other x s"

text \<open>The traffic a run of the report task delivers: the slice, if it was sent and taken.\<close>

definition delivered_by :: "('p, 't, 'sc) env \<Rightarrow> 't controller \<Rightarrow> UserTraffic list" where
  "delivered_by env c =
     (case ct_server c of None \<Rightarrow> []
      | Some srv \<Rightarrow>
          let ts = server_GetUserTrafficSlice env (fst (reportLimits c)) srv in
          if ts \<noteq> [] \<and> ReportUserTraffic ts (en_net env) = None then ts else [])"

definition counted_in ::
  "(source, ('p, 't, 'sc) server_op) activity list \<Rightarrow> 't server \<Rightarrow> side \<Rightarrow> string \<Rightarrow> int"
where
  "counted_in as s = bk_counted (fold (act server_move server_other server_owner) as
     \<lparr>bk_server = s, bk_counted = (\<lambda>_ _. 0), bk_delivered = (\<lambda>_ _. 0)\<rparr>)"

definition ctl_acts :: "('p, 't, 'sc) ctl_event \<Rightarrow> (source, ('p, 't, 'sc) server_op) activity list" where
  "ctl_acts ev = (case ev of Served a \<Rightarrow> [a] | Polled _ _ \<Rightarrow> [] | Reported _ as \<Rightarrow> as)"

fun ctl_next :: "('p, 't, 'sc) ctl_event \<Rightarrow> 't controller \<Rightarrow> 't controller" where
  "ctl_next (Served a) c = c\<lparr>ct_server := map_option (serve_act a) (ct_server c)\<rparr>"
| "ctl_next (Polled env w) c = fst (snd (nodeInfoMonitor env c w))"
| "ctl_next (Reported env as) c = snd (snd (reportUserTrafficTask env (fold serve_act as) c))"

definition ctl_delivered :: "('p, 't, 'sc) ctl_event \<Rightarrow> 't controller \<Rightarrow> UserTraffic list" where
  "ctl_delivered ev c = (case ev of Reported env as \<Rightarrow> delivered_by env c | _ \<Rightarrow> [])"

definition ctl_step :: "('p, 't, 'sc) ctl_event \<Rightarrow> 't controller books \<Rightarrow> 't controller books" where
  "ctl_step ev B =
     (let c = bk_server B; srv = the (ct_server c) in
      \<lparr>bk_server = ctl_next ev c,
       bk_counted = (\<lambda>d u. bk_counted B d u + counted_in (ctl_acts ev) srv d u),
       bk_delivered = (\<lambda>d u. bk_delivered B d u + reported d u (ctl_delivered ev c))\<rparr>)"

text \<open>The server's books in the controller's.\<close>

definition server_books :: "'t controller books \<Rightarrow> 't server books" where
  "server_books B =
     \<lparr>bk_server = the (ct_server (bk_server B)), bk_counted = bk_counted B, bk_delivered = bk_delivered B\<rparr>"

lemma act_counted:
  "fold (act server_move server_other server_owner) as B =
     \<lparr>bk_server = fold serve_act as (bk_server B),
      bk_counted = (\<lambda>d u. bk_counted B d u + counted_in as (bk_server B) d u), bk_delivered = bk_delivered B\<rparr>"
  for B :: "'t server books"
proof (induction as arbitrary: B)
  case Nil
  show ?case by (simp add: counted_in_def)
next
  case (Cons a as)
  have one: "bk_server (act server_move server_other server_owner a C) = serve_act a (bk_server C) \<and>
      bk_delivered (act server_move server_other server_owner a C) = bk_delivered C" for C :: "'t server books"
    by (cases a) simp_all
  have "bk_counted (act server_move server_other server_owner a B) d u = bk_counted B d u +
      bk_counted (act server_move server_other server_owner a
        \<lparr>bk_server = bk_server B, bk_counted = (\<lambda>_ _. 0), bk_delivered = (\<lambda>_ _. 0)\<rparr>) d u" for d u
    by (cases a) simp_all
  then show ?case
    unfolding counted_in_def
    by (simp add: Cons.IH one counted_in_def [symmetric] fun_eq_iff add.assoc)
qed

text \<open>Each event is a few steps of a session of the server.\<close>

abbreviation "server_step env \<equiv>
  session_step (server_GetUserTrafficSlice env) (server_ConfirmUserTraffic env) server_move server_other server_owner"

lemma save_frame [simp]:
  "ct_server (fst (saveCurrentPanelSnapshot env c w)) = ct_server c"
  "ct_userList (fst (saveCurrentPanelSnapshot env c w)) = ct_userList c"
  "ct_reloadCh (fst (saveCurrentPanelSnapshot env c w)) = ct_reloadCh c"
  "ct_apiClient (fst (saveCurrentPanelSnapshot env c w)) = ct_apiClient c"
  "ct_aliveList (fst (saveCurrentPanelSnapshot env c w)) = ct_aliveList c"
  by (simp_all add: saveCurrentPanelSnapshot_def case_prod_beta)

lemma reload_frame [simp]:
  "ct_server (triggerReload c) = ct_server c" "ct_userList (triggerReload c) = ct_userList c"
  "ct_reloadCh (triggerReload c)" "ct_aliveList (triggerReload c) = ct_aliveList c"
  "ct_apiClient (triggerReload c) = ct_apiClient c"
  by (simp_all add: triggerReload_def)

lemma applyUsers_server:
  fixes env :: "('p, 't, 'sc) env"
  assumes "ct_server c = Some srv"
  shows "\<exists>xs :: ('p, 't, 'sc) server_op list. list_all tame xs \<and>
    ct_server (fst (applyUsers env users c w)) = Some (fold server_other xs srv)"
proof (cases "ct_server (fst (applyUsers env users c w)) = Some srv")
  case True
  then show ?thesis by (intro exI [of _ "[]"]) simp
next
  case False
  then obtain added deleted modified full
    where "ct_server (fst (applyUsers env users c w)) =
      Some (fst (snd (server_UpdateUsers env added deleted modified full srv w)))"
    using assms by (auto simp: applyUsers_def case_prod_beta Let_def split: if_splits option.splits)
  moreover obtain x :: "('p, 't, 'sc) server_op"
    where "tame x" "fst (snd (server_UpdateUsers env added deleted modified full srv w)) = server_other x srv"
    using server_ops(2) by metis
  ultimately show ?thesis by (intro exI [of _ "[x]"]) simp
qed

definition polled :: "Client \<Rightarrow> (int \<rightharpoonup> int) \<Rightarrow> 't controller \<Rightarrow> 't controller" where
  "polled api alive c =
     c\<lparr>ct_apiClient := api, ct_aliveList := alive, ct_server := map_option (server_SetAliveList alive) (ct_server c)\<rparr>"

lemma polled_frame [simp]:
  "ct_server (polled api alive c) = map_option (server_SetAliveList alive) (ct_server c)"
  "ct_userList (polled api alive c) = ct_userList c" "ct_reloadCh (polled api alive c) = ct_reloadCh c"
  "ct_apiClient (polled api alive c) = api" "ct_aliveList (polled api alive c) = alive"
  "ct_info (polled api alive c) = ct_info c" "ct_runtime (polled api alive c) = ct_runtime c" "ct_conf (polled api alive c) = ct_conf c"
  by (simp_all add: polled_def)

text \<open>The four ways a run of the monitor ends.\<close>

lemma monitor_cases:
  obtains
    (failed) api where "snd (nodeInfoMonitor env c w) = (c\<lparr>ct_apiClient := api\<rparr>, w)"
  | (changed) api w' where "snd (nodeInfoMonitor env c w) = (triggerReload (c\<lparr>ct_apiClient := api\<rparr>), w')"
  | (same_users) api alive where
      "snd (nodeInfoMonitor env c w) = saveCurrentPanelSnapshot env (polled api alive c) w"
  | (users) api alive newUsers where
      "snd (nodeInfoMonitor env c w) = applyUsers env newUsers (polled api alive c) w"
proof -
  obtain r api where n: "GetNodeInfo (en_decodeNode env) (en_fconv env) (en_net env) (ct_apiClient c) = (r, api)"
    by fastforce
  obtain u api1 where u: "GetUserList (en_msgpackUsers env) (en_jsonUsers env) (en_net env) api = (u, api1)"
    by fastforce
  let ?a = "GetUserAlive (en_decodeAlive env) (en_net env)"
  show thesis
  proof (cases r)
    case (Inl err)
    then show thesis using n by (intro failed [of api]) (simp add: nodeInfoMonitor_def)
  next
    case node: (Inr x)
    show thesis
    proof (cases x)
      case (Some i)
      then show thesis using n node
        by (intro changed [of api]) (simp add: nodeInfoMonitor_def Let_def case_prod_beta)
    next
      case None
      show thesis
      proof (cases u)
        case (Inl err)
        then show thesis using n u node None by (intro failed [of api1]) (simp add: nodeInfoMonitor_def)
      next
        case (Inr users)
        note R = n u node None Inr
        show thesis
        proof (cases ?a)
          case (Inl err)
          then show thesis using R by (intro failed [of api1]) (simp add: nodeInfoMonitor_def Let_def)
        next
          case (Inr alive)
          then show thesis using R same_users [of api1 alive] users [of "the users" api1 alive]
            by (cases users) (simp_all add: nodeInfoMonitor_def Let_def polled_def)
        qed
      qed
    qed
  qed
qed

lemma monitor_server:
  fixes env :: "('p, 't, 'sc) env"
  assumes "ct_server c = Some srv"
  shows "\<exists>xs :: ('p, 't, 'sc) server_op list. list_all tame xs \<and>
    ct_server (fst (snd (nodeInfoMonitor env c w))) = Some (fold server_other xs srv)"
proof -
  have "\<forall>alive. \<exists>x :: ('p, 't, 'sc) server_op. tame x \<and> server_SetAliveList alive srv = server_other x srv"
    by (intro allI server_ops(1))
  then obtain x :: "(int \<rightharpoonup> int) \<Rightarrow> ('p, 't, 'sc) server_op"
    where x: "tame (x alive)" "server_SetAliveList alive srv = server_other (x alive) srv" for alive
    by metis
  show ?thesis
  proof (cases rule: monitor_cases [of env c w])
    case (failed api)
    then show ?thesis using assms by (intro exI [of _ "[]"]) simp
  next
    case (changed api w')
    then show ?thesis using assms by (intro exI [of _ "[]"]) simp
  next
    case (same_users api alive)
    then show ?thesis using assms x by (intro exI [of _ "[x alive]"]) simp
  next
    case (users api alive newUsers)
    have "ct_server (polled api alive c) = Some (server_other (x alive) srv)" using assms x by simp
    from applyUsers_server [OF this, of env newUsers w] users obtain xs :: "('p, 't, 'sc) server_op list"
      where "list_all tame xs"
        "ct_server (fst (snd (nodeInfoMonitor env c w))) = Some (fold server_other xs (server_other (x alive) srv))"
      by auto
    then show ?thesis using x(1) by (intro exI [of _ "x alive # xs"]) simp
  qed
qed

lemma report_server:
  fixes env :: "('p, 't, 'sc) env"
  assumes "ct_server c = Some srv"
  shows "\<exists>xs :: ('p, 't, 'sc) server_op list. list_all tame xs \<and>
    ct_server (snd (snd (reportUserTrafficTask env f c))) =
      Some (fold server_other xs
        (if delivered_by env c = [] then f srv else server_ConfirmUserTraffic env (delivered_by env c) (f srv)))"
proof -
  let ?m = "fst (reportLimits c)" and ?d = "snd (reportLimits c)"
  let ?ts = "server_GetUserTrafficSlice env ?m srv"
  have online: "\<exists>x :: ('p, 't, 'sc) server_op. tame x \<and> snd (snd (reportOnline env ?d ?ts s)) = server_other x s" for s
    using server_ops(3) [of env s]
    by (auto simp: reportOnline_def case_prod_beta Let_def split: option.split)
  have "\<exists>xs :: ('p, 't, 'sc) server_op list. list_all tame xs \<and> snd (snd (reportServer env f ?m ?d srv)) = fold server_other xs
      (if delivered_by env c = [] then f srv else server_ConfirmUserTraffic env (delivered_by env c) (f srv))"
  proof (cases "\<exists>err. ?ts \<noteq> [] \<and> ReportUserTraffic ?ts (en_net env) = Some err \<and> contextError err")
    case True
    then show ?thesis
      by (intro exI [of _ "[]"]) (auto simp: reportServer_def delivered_by_def assms Let_def)
  next
    case False
    let ?s = "if delivered_by env c = [] then f srv else server_ConfirmUserTraffic env (delivered_by env c) (f srv)"
    obtain x :: "('p, 't, 'sc) server_op" where "tame x" "snd (snd (reportOnline env ?d ?ts ?s)) = server_other x ?s"
      using online [of ?s] by auto
    then show ?thesis using False
      by (intro exI [of _ "[x]"])
        (auto simp: reportServer_def delivered_by_def assms Let_def case_prod_beta split: option.splits if_splits)
  qed
  then show ?thesis
    using assms by (simp add: reportUserTrafficTask_def case_prod_beta)
qed

lemma other_steps:
  "fold (server_step env) (map (\<lambda>x. Activity (Other x)) xs) B = B\<lparr>bk_server := fold server_other xs (bk_server B)\<rparr>"
  for B :: "'t server books"
  by (induction xs arbitrary: B) simp_all

lemma other_volume [simp]:
  "total d (map (\<lambda>x. Activity (Other x)) xs) = 0"
  "list_all no_negative (concat (map activities (map (\<lambda>x. Activity (Other x)) xs)))"
  by (induction xs) (simp_all add: total_def volume_def no_negative_def)

lemma total_Cons: "total d (e # es) = sum_list (map (volume d) (activities e)) + total d es"
  by (simp add: total_def)

definition implements :: "('p, 't, 'sc) ctl_event \<Rightarrow> (source, ('p, 't, 'sc) server_op) session list \<Rightarrow> bool" where
  "implements ev session \<longleftrightarrow>
     (\<forall>d. total d session = sum_list (map (volume d) (ctl_acts ev))) \<and>
     (list_all no_negative (concat (map activities session)) \<longleftrightarrow> list_all no_negative (ctl_acts ev))"

lemma implementsI:
  "ctl_acts ev = [] \<Longrightarrow> implements ev (map (\<lambda>x. Activity (Other x)) xs)"
  "ctl_acts ev = [a] \<Longrightarrow> implements ev (Activity a # map (\<lambda>x. Activity (Other x)) xs)"
  "ctl_acts ev = as \<Longrightarrow> implements ev (Round m as ok # map (\<lambda>x. Activity (Other x)) xs)"
  by (auto simp: implements_def total_Cons simp del: map_map)

lemma ctl_step_simulated:
  fixes ev :: "('p, 't, 'sc) ctl_event"
  assumes srv: "ct_server (bk_server B) = Some srv"
  shows "\<exists>(env :: ('p, 't, 'sc) env) session. server_books (ctl_step ev B) = fold (server_step env) session (server_books B) \<and>
    ct_server (bk_server (ctl_step ev B)) \<noteq> None \<and> implements ev session"
proof (cases ev)
  case (Served a)
  have "server_books (ctl_step ev B) = fold (server_step (undefined :: ('p, 't, 'sc) env)) [Activity a] (server_books B)"
    using act_counted [of "[a]" "server_books B"]
    by (simp add: Served ctl_step_def server_books_def srv ctl_acts_def ctl_delivered_def)
  moreover have "ct_server (bk_server (ctl_step ev B)) \<noteq> None" by (simp add: Served ctl_step_def srv Let_def)
  moreover have "implements ev [Activity a]" using implementsI(2) [of ev a "[]"] Served by (simp add: ctl_acts_def)
  ultimately show ?thesis by blast
next
  case (Polled env w)
  obtain xs :: "('p, 't, 'sc) server_op list"
    where xs: "ct_server (fst (snd (nodeInfoMonitor env (bk_server B) w))) = Some (fold server_other xs srv)"
    using monitor_server [OF srv] by blast
  have "server_books (ctl_step ev B) = fold (server_step env) (map (\<lambda>x. Activity (Other x)) xs) (server_books B)"
    unfolding other_steps by (simp add: Polled ctl_step_def server_books_def srv ctl_acts_def ctl_delivered_def xs counted_in_def)
  moreover have "ct_server (bk_server (ctl_step ev B)) \<noteq> None" by (simp add: Polled ctl_step_def xs Let_def)
  moreover have "implements ev (map (\<lambda>x. Activity (Other x)) xs)" 
    by (rule implementsI(1)) (simp add: Polled ctl_acts_def)
  ultimately show ?thesis by blast
next
  case (Reported env as)
  let ?m = "fst (reportLimits (bk_server B))"
  let ?ts = "server_GetUserTrafficSlice env ?m srv"
  let ?ok = "ReportUserTraffic ?ts (en_net env) = None"
  obtain xs :: "('p, 't, 'sc) server_op list"
    where xs: "ct_server (snd (snd (reportUserTrafficTask env (fold serve_act as) (bk_server B)))) = Some (fold server_other xs
        (if delivered_by env (bk_server B) = [] then fold serve_act as srv
         else server_ConfirmUserTraffic env (delivered_by env (bk_server B)) (fold serve_act as srv)))"
    using report_server [OF srv] by blast
  have "server_books (ctl_step ev B) =
      fold (server_step env) (Round ?m as ?ok # map (\<lambda>x. Activity (Other x)) xs) (server_books B)"
    using xs
    by (auto simp: other_steps Reported ctl_step_def server_books_def srv ctl_acts_def ctl_delivered_def delivered_by_def
        report_round_def Let_def act_counted)
  moreover have "ct_server (bk_server (ctl_step ev B)) \<noteq> None" by (simp add: Reported ctl_step_def xs Let_def)
  moreover have "implements ev (Round ?m as ?ok # map (\<lambda>x. Activity (Other x)) xs)"
    by (rule implementsI(3)) (simp add: Reported ctl_acts_def)
  ultimately show ?thesis by blast
qed

lemma counted_in_Cons:
  "counted_in (a # as) s d u = (case a of Moved c x y \<Rightarrow> if server_owner c s = Some u then pick d x y else 0 | Other x \<Rightarrow> 0) +
    counted_in as (serve_act a s) d u"
proof -
  let ?B = "\<lparr>bk_server = s, bk_counted = (\<lambda>_ _. 0), bk_delivered = (\<lambda>_ _. 0)\<rparr>"
  have "counted_in (a # as) s = bk_counted (fold (act server_move server_other server_owner) as (act server_move server_other server_owner a ?B))"
    by (simp add: counted_in_def)
  also have "\<dots> = (\<lambda>d u. bk_counted (act server_move server_other server_owner a ?B) d u +
      counted_in as (bk_server (act server_move server_other server_owner a ?B)) d u)"
    by (simp add: act_counted)
  finally show ?thesis by (cases a) simp_all
qed

lemma counted_in_le: "list_all no_negative as \<Longrightarrow> counted_in as s d u \<le> sum_list (map (volume d) as)"
proof (induction as arbitrary: s)
  case Nil
  show ?case by (simp add: counted_in_def)
next
  case (Cons a as)
  have "(case a of Moved c x y \<Rightarrow> if server_owner c s = Some u then pick d x y else 0 | Other x \<Rightarrow> 0) \<le> volume d a"
    using Cons.prems no_negative_volume [of a d] by (cases a) (auto simp: volume_def)
  then show ?case using Cons by (simp add: counted_in_Cons add_mono)
qed

definition ctl_volume :: "side \<Rightarrow> ('p, 't, 'sc) ctl_event list \<Rightarrow> int" where
  "ctl_volume d evs = sum_list (map (volume d) (concat (map ctl_acts evs)))"

lemma ctl_volume_Cons [simp]:
  "ctl_volume d [] = 0" "ctl_volume d (ev # evs) = sum_list (map (volume d) (ctl_acts ev)) + ctl_volume d evs"
  by (simp_all add: ctl_volume_def)

lemma ctl_volume_nonneg: "list_all no_negative (concat (map ctl_acts evs)) \<Longrightarrow> 0 \<le> ctl_volume d evs"
  unfolding ctl_volume_def by (rule sum_volume_nonneg)

lemma server_books_counted:
  "bk_counted (server_books (ctl_step ev B)) d u = bk_counted (server_books B) d u + counted_in (ctl_acts ev) (bk_server (server_books B)) d u"
  by (simp add: server_books_def ctl_step_def Let_def)

lemma ctl_run_balanced:
  fixes evs :: "('p, 't, 'sc) ctl_event list"
  assumes "ct_server (bk_server B) \<noteq> None" and "any_server.balanced base (server_books B)"
    and "list_all no_negative (concat (map ctl_acts evs))"
    and "\<And>d u. base d u + bk_counted B d u + ctl_volume d evs < 9223372036854775808"
  shows "ct_server (bk_server (fold ctl_step evs B)) \<noteq> None \<and> any_server.balanced base (server_books (fold ctl_step evs B))"
  using assms
proof (induction evs arbitrary: B)
  case (Cons ev evs)
  let ?B = "ctl_step ev B"
  have neg: "list_all no_negative (ctl_acts ev)" "list_all no_negative (concat (map ctl_acts evs))"
    using Cons.prems(3) by simp_all
  obtain srv where srv: "ct_server (bk_server B) = Some srv" using Cons.prems(1) by blast
  obtain env :: "('p, 't, 'sc) env" and session
    where sim: "server_books ?B = fold (server_step env) session (server_books B)"
      and some: "ct_server (bk_server ?B) \<noteq> None" and impl: "implements ev session"
    using ctl_step_simulated [OF srv, of ev] by blast
  have now: "base d u + bk_counted (server_books B) d u + total d session < 9223372036854775808" for d u
    using Cons.prems(4) [of d u] impl ctl_volume_nonneg [OF neg(2), of d] by (simp add: implements_def server_books_def)
  have "any_server.balanced base (server_books ?B)"
    unfolding sim
    by (rule any_server.session_balanced [OF Cons.prems(2) _ now]) (use impl neg in \<open>simp add: implements_def\<close>)
  moreover have "base d u + bk_counted ?B d u + ctl_volume d evs < 9223372036854775808" for d u
    using Cons.prems(4) [of d u] server_books_counted [of ev B d u] counted_in_le [OF neg(1), of "bk_server (server_books B)" d u]
    by (simp add: server_books_def)
  ultimately show ?case using Cons.IH [OF some _ neg(2)] by simp
qed simp

section \<open>A started controller\<close>

lemma newServer_ok:
  assumes "newServer env cfg keyStore node users alive w = (Inr srv, ks, w')"
  shows "server_ok srv" and "server_pending d u srv = 0"
proof -
  show "server_ok srv" "server_pending d u srv = 0"
    using assms
    by (auto simp: newServer_def NewEmbedded_ok(2) NewExternal_ok(2) split: if_splits prod.splits sum.splits
        dest: NewEmbedded_ok(1) NewExternal_ok(1))
qed

lemma server_Start_ok:
  fixes env :: "('p, 't, 'sc) env" and srv :: "'t server"
  assumes "server_Start env srv w = (r, srv', w')"
  shows "server_ok srv \<Longrightarrow> server_ok srv'" and "server_ok srv \<Longrightarrow> server_pending d u srv' = server_pending d u srv"
proof -
  show "server_ok srv \<Longrightarrow> server_ok srv'" and "server_ok srv \<Longrightarrow> server_pending d u srv' = server_pending d u srv"
    using assms ext_keepsD [OF start_keeps [of "en_cfg env" "en_starts env" w]] keepsD [OF keeps_simple(7) [of "en_listens env"]]
    by (cases srv; force simp: case_prod_beta)+
qed

lemma ctl_Start_ok:
  assumes "ctl_Start env c w = (None, c', w')"
  shows "\<exists>srv. ct_server c' = Some srv \<and> server_ok srv \<and> (\<forall>d u. server_pending d u srv = 0)"
proof -
  obtain node users alive c1 w1 where s: "startupPanelSnapshot env c w = (Inr (node, users, alive), c1, w1)"
    using assms by (auto simp: ctl_Start_def split: prod.splits sum.splits)
  obtain ks srv w2 where n: "newServer env (ct_runtime c1) (ct_keyStore c1) node users alive w1 = (Inr srv, ks, w2)"
    using assms s by (auto simp: ctl_Start_def Let_def split: prod.splits sum.splits)
  obtain srv' w3 where r: "server_Start env srv w2 = (None, srv', w3)" "ct_server c' = Some srv'"
    using assms s n by (auto simp: ctl_Start_def Let_def startTasks_def split: prod.splits sum.splits option.splits)
  show ?thesis using r newServer_ok [OF n] server_Start_ok [OF r(1)] by simp
qed

text \<open>
  C1. The controller bills exactly. Start a controller, with either engine, and let it run
  through any sequence of traffic, logins, polls of the panel and reports, the panel
  answering or failing as it likes: for every user and direction, what the panel has accepted
  and what is still pending in the server is what was counted.
\<close>

theorem controller_bills_exactly:
  fixes evs :: "('p, 't, 'sc) ctl_event list"
  assumes "ctl_Start env c w = (None, c', w')"
    and "list_all no_negative (concat (map ctl_acts evs))"
    and "\<And>d. ctl_volume d evs < 9223372036854775808"
    and "B = fold ctl_step evs \<lparr>bk_server = c', bk_counted = (\<lambda>_ _. 0), bk_delivered = (\<lambda>_ _. 0)\<rparr>"
  shows "\<exists>srv. ct_server (bk_server B) = Some srv \<and>
    server_pending d u srv + bk_delivered B d u = bk_counted B d u \<and>
    0 \<le> server_pending d u srv \<and> 0 \<le> bk_delivered B d u"
proof -
  let ?B = "\<lparr>bk_server = c', bk_counted = (\<lambda>_ _. 0), bk_delivered = (\<lambda>_ _. 0)\<rparr>"
  obtain srv where srv: "ct_server c' = Some srv" "server_ok srv" "\<And>d u. server_pending d u srv = 0"
    using ctl_Start_ok [OF assms(1)] by blast
  have "ct_server (bk_server B) \<noteq> None \<and> any_server.balanced (\<lambda>_ _. 0) (server_books B)"
    unfolding assms(4)
    by (rule ctl_run_balanced) (use srv assms(2,3) in \<open>simp_all add: any_server.balanced_def server_books_def\<close>)
  then show ?thesis
    using any_server.pending_count [of "the (ct_server (bk_server B))" d u]
    by (auto simp: any_server.balanced_def server_books_def is_count_def)
qed

text \<open>
  C6. The controller implements the contract's session. Every event of a running controller is,
  for its server, a sequence of the contract's steps with the same traffic: a poll is
  operations that move no bytes, a run of the report task is one report round, accepted
  exactly when the panel took the push, with the traffic that arrives meanwhile inside it.
\<close>

theorem controller_refines_session:
  fixes evs :: "('p, 't, 'sc) ctl_event list"
  assumes "ct_server (bk_server B) \<noteq> None"
  shows "\<exists>run :: (('p, 't, 'sc) env \<times> (source, ('p, 't, 'sc) server_op) session list) list.
    list_all2 (\<lambda>ev r. implements ev (snd r)) evs run \<and>
    server_books (fold ctl_step evs B) = fold (\<lambda>r. fold (server_step (fst r)) (snd r)) run (server_books B) \<and>
    ct_server (bk_server (fold ctl_step evs B)) \<noteq> None"
  using assms
proof (induction evs arbitrary: B)
  case (Cons ev evs)
  then obtain srv where "ct_server (bk_server B) = Some srv" by blast
  from ctl_step_simulated [OF this, of ev] obtain env :: "('p, 't, 'sc) env" and session
    where sim: "server_books (ctl_step ev B) = fold (server_step env) session (server_books B)"
      and some: "ct_server (bk_server (ctl_step ev B)) \<noteq> None" and impl: "implements ev session"
    by blast
  from Cons.IH [OF some]
  obtain run :: "(('p, 't, 'sc) env \<times> (source, ('p, 't, 'sc) server_op) session list) list" where
    run: "list_all2 (\<lambda>ev r. implements ev (snd r)) evs run"
      "server_books (fold ctl_step evs (ctl_step ev B)) = fold (\<lambda>r. fold (server_step (fst r)) (snd r)) run (server_books (ctl_step ev B))"
      "ct_server (bk_server (fold ctl_step evs (ctl_step ev B))) \<noteq> None"
    by blast
  show ?case
    by (rule exI [of _ "(env, session) # run"]) (use run sim impl in simp)
qed simp

section \<open>A sample controller\<close>

definition sampleNet :: net where
  "sampleNet req = (case req of GetConfig _ \<Rightarrow> okResponse ''cfg'' | GetUsers _ \<Rightarrow> okResponse ''users''
     | GetAlive \<Rightarrow> HttpNil | PushTraffic _ \<Rightarrow> okResponse '''' | PushAlive _ \<Rightarrow> okResponse '''')"

text \<open>A world in which everything answers and nothing can be cached.\<close>

definition sampleWorld :: "(string, unit, unit) env" where
  "sampleWorld =
     \<lparr>en_cfg = plainEnv, en_key = sampleEnv, en_net = sampleNet, en_now = 5, en_order = sorted_list_of_set,
      en_listens = (\<lambda>_. True), en_starts = True, en_fconv = (\<lambda>_. 0), en_decodeNode = sampleDecode,
      en_msgpackUsers = (\<lambda>_. None), en_jsonUsers = (\<lambda>_. Some (Some [sampleUser 1 ''a''])),
      en_decodeAlive = (\<lambda>_. None), en_encodeSnapshot = (\<lambda>_. None), en_decodeSnapshot = (\<lambda>_. None)\<rparr>"

lemma sampleWorld_simps [simp]:
  "en_cfg sampleWorld = plainEnv" "en_key sampleWorld = sampleEnv" "en_net sampleWorld = sampleNet"
  "en_now sampleWorld = 5" "en_order sampleWorld = sorted_list_of_set" "en_listens sampleWorld = (\<lambda>_. True)"
  "en_starts sampleWorld" "en_fconv sampleWorld = (\<lambda>_. 0)" "en_decodeNode sampleWorld = sampleDecode"
  "en_msgpackUsers sampleWorld = (\<lambda>_. None)" "en_jsonUsers sampleWorld = (\<lambda>_. Some (Some [sampleUser 1 ''a'']))"
  "en_decodeAlive sampleWorld = (\<lambda>_. None)" "en_encodeSnapshot sampleWorld = (\<lambda>_. None)"
  "en_decodeSnapshot sampleWorld = (\<lambda>_. None)"
  by (simp_all add: sampleWorld_def)

definition sampleController :: "unit controller" where
  "sampleController = NewController (fst (NewClient sampleConf)) sampleConf (autoConfig 1) (sampleStore None) False"

definition settledNode :: NodeInfo where
  "settledNode = settleNode (\<lambda>_. 0) sample_node 7 ''h''"

definition startedEngine :: "unit embedded" where
  "startedEngine = sampleEngine\<lparr>em_node := settledNode, em_cfg := draftConfig ''pub-ab'' settledNode (autoConfig 1)\<rparr>"

lemma settled_settings [simp]: "ni_EncryptionSettings settledNode = ni_EncryptionSettings sample_node"
  by (simp add: settledNode_def)

lemma Normalize_sample: "Normalize (\<lambda>_. 0) sample_node 7 ''h'' = (None, settledNode)"
  using Normalize_ok [OF acceptable_sample] by (simp add: settledNode_def)

lemma settled_config: "buildSudokuConfig plainEnv settledNode cfg = Inr (draftConfig ''pub-ab'' settledNode cfg)"
proof -
  have "trimmed ''ab''" by (rule trimmed_plain) (simp add: plain_char_def)
  moreover have "st_MasterPublicKey (ni_EncryptionSettings sample_node) = ''''"
    by (simp add: sample_node_def resolveSettings_def Let_def sample_raw_def)
  ultimately show ?thesis
    by (simp add: buildSudokuConfig_def configKey_def sample_private_key plainEnv_def)
qed

lemma TrimQuotes_empty [simp]: "TrimQuotes [] = []"
  by code_simp

lemma sample_fetch:
  "fetchPanelSnapshot sampleWorld (fst (NewClient sampleConf)) =
     (Inr (settledNode, [sampleUser 1 ''a''], Map.empty),
      fst (NewClient sampleConf)\<lparr>cl_responseBodyHash := bodyHash ''cfg''\<rparr>)"
  by (simp add: fetchPanelSnapshot_def GetNodeInfo_def NewClient_def sampleConf_def sampleNet_def okResponse_def
      checkResponseStatus_def Let_def sampleDecode_def Normalize_sample GetUserList_def GetUserAlive_def contains_iff)

lemma Normalize_settled: "Normalize (\<lambda>_. 0) settledNode 7 ''h'' = (None, settledNode)"
  using Normalize_ok [of settledNode "\<lambda>_. 0" 7 "''h''"] acceptable_sample by (simp add: settledNode_def)

lemma settled_NewEmbedded:
  "NewEmbedded plainEnv sampleEnv it settledNode [sampleUser 1 ''a''] Map.empty (autoConfig 1) (sampleStore None) emptyOS =
     (Inr startedEngine, sampleStore (Some [''1'' \<mapsto> ''k0'']), savedOS)"
proof -
  have "BuildMappings sampleEnv settledNode [sampleUser 1 ''a''] (sampleStore None) emptyOS =
     (Inr [keyEntry (sampleUser 1 ''a'') ''k0''], sampleStore (Some [''1'' \<mapsto> ''k0'']), savedOS)"
    by (simp add: sample_run_simps Let_def fun_upd_twist)
  then show ?thesis
    by (simp add: NewEmbedded_def settled_config plainEnv_tables replaceUsersLocked_def upsertUserLocked_def
      emptyEmbedded_def claimCounter_def pruneCounters_def rebuildUserHashesLocked_def listUsers_def
      startedEngine_def sampleEngine_def hashTable_def keyEntry_def idle_def fun_eq_iff)
qed

lemma autoConfig_embedded: "EngineName (autoConfig n) = EngineEmbedded"
  by (simp add: EngineName_def autoConfig_def newConf_def) code_simp

definition startedController :: "unit controller" where
  "startedController = sampleController\<lparr>ct_apiClient := fst (NewClient sampleConf)\<lparr>cl_responseBodyHash := bodyHash ''cfg''\<rparr>,
     ct_info := Some settledNode, ct_userList := [sampleUser 1 ''a''], ct_tag := ni_Tag settledNode,
     ct_keyStore := sampleStore (Some [''1'' \<mapsto> ''k0'']), ct_server := Some (EmbeddedServer (startedEngine\<lparr>em_listening := True\<rparr>)),
     ct_tasks := Some (ni_PullInterval settledNode, ni_PushInterval settledNode)\<rparr>"

lemma sample_Start: "ctl_Start sampleWorld sampleController emptyOS = (None, startedController, savedOS)"
proof -
  have c: "ct_apiClient sampleController = fst (NewClient sampleConf)" "ct_conf sampleController = sampleConf"
    "ct_runtime sampleController = autoConfig 1" "ct_keyStore sampleController = sampleStore None"
    by (simp_all add: sampleController_def NewController_def)
  have n: "nc_NodeID sampleConf = 7" "cl_APIHost (fst (NewClient sampleConf)) = ''h''"
    by (simp_all add: sampleConf_def NewClient_def)
  show ?thesis
    by (simp add: ctl_Start_def startupPanelSnapshot_def c n sample_fetch savePanelSnapshot_def Normalize_settled newServer_def
        autoConfig_embedded conf_names settled_NewEmbedded Start_def startTasks_def Let_def startedController_def)
       (simp add: sampleController_def NewController_def)
qed

lemma startedController_server [simp]:
  "ct_server startedController = Some (EmbeddedServer (startedEngine\<lparr>em_listening := True\<rparr>))"
  by (simp add: startedController_def)

definition sampleEvents :: "(string, unit, unit) ctl_event list" where
  "sampleEvents =
     [Served (Other (OnEmbedded (SudokuOp 3 (HandshakeDone (Some (userHashHex ''k0''))) True None 5 [Control StartMux]))),
      Served (Moved (Connection 3) 700 900), Reported sampleWorld [Moved (Connection 3) 10 20],
      Polled sampleWorld savedOS]"

definition sampleRun :: "unit controller books" where
  "sampleRun = fold ctl_step sampleEvents
     \<lparr>bk_server = startedController, bk_counted = (\<lambda>_ _. 0), bk_delivered = (\<lambda>_ _. 0)\<rparr>"

lemma sampleEvents_acts:
  "concat (map ctl_acts sampleEvents) =
    [Other (OnEmbedded (SudokuOp 3 (HandshakeDone (Some (userHashHex ''k0''))) True None 5 [Control StartMux])),
     Moved (Connection 3) 700 900, Moved (Connection 3) 10 20]"
  by (simp add: sampleEvents_def ctl_acts_def)

theorem controller_bills_exactly_witness:
  "\<exists>srv. ct_server (bk_server sampleRun) = Some srv \<and>
    server_pending Up ''a'' srv + bk_delivered sampleRun Up ''a'' = bk_counted sampleRun Up ''a''"
proof -
  have "list_all no_negative (concat (map ctl_acts sampleEvents))"
    by (simp add: sampleEvents_acts no_negative_def volume_def)
  moreover have "ctl_volume d sampleEvents < 9223372036854775808" for d
    unfolding ctl_volume_def sampleEvents_acts by (cases d) (simp_all add: volume_def)
  ultimately show ?thesis
    using controller_bills_exactly [OF sample_Start _ _ sampleRun_def, of Up "''a''"] by blast
qed

theorem controller_refines_session_witness:
  "ct_server (bk_server sampleRun) \<noteq> None"
proof -
  have "ct_server (bk_server \<lparr>bk_server = startedController, bk_counted = (\<lambda>_ _. 0), bk_delivered = (\<lambda>_ _. 0)\<rparr>) \<noteq> None"
    by simp
  from controller_refines_session [OF this, of sampleEvents] show ?thesis
    unfolding sampleRun_def by blast
qed

section \<open>The comparison of user lists\<close>

definition changed :: "UserInfo \<Rightarrow> UserInfo \<Rightarrow> bool" where
  "changed x y \<longleftrightarrow> ui_SpeedLimit x \<noteq> ui_SpeedLimit y \<or> ui_DeviceLimit x \<noteq> ui_DeviceLimit y \<or> ui_Email x \<noteq> ui_Email y"

lemma compareLoop_step:
  "compareLoop m (y # ys) =
     (case m (ui_Uuid y) of
        None \<Rightarrow> (case compareLoop m ys of (left, added, modified) \<Rightarrow> (left, y # added, modified))
      | Some x \<Rightarrow> (case compareLoop (m(ui_Uuid y := None)) ys of
          (left, added, modified) \<Rightarrow> (left, added, if changed x y then y # modified else modified)))"
  by (simp add: changed_def split: option.split)

lemma compareLoop_spec:
  "distinct (map ui_Uuid users) \<Longrightarrow> compareLoop m users =
    (m |` (- ui_Uuid ` set users), filter (\<lambda>u. m (ui_Uuid u) = None) users,
     filter (\<lambda>u. \<exists>x. m (ui_Uuid u) = Some x \<and> changed x u) users)"
proof (induction users arbitrary: m)
  case (Cons y ys)
  have d: "distinct (map ui_Uuid ys)" and y: "ui_Uuid y \<notin> ui_Uuid ` set ys" using Cons.prems by auto
  have other: "(m(ui_Uuid y := None)) (ui_Uuid u) = m (ui_Uuid u)" if "u \<in> set ys" for u
  proof -
    have "ui_Uuid u \<noteq> ui_Uuid y" using y that by (metis image_eqI)
    then show ?thesis by simp
  qed
  have f: "filter (\<lambda>u. (m(ui_Uuid y := None)) (ui_Uuid u) = None) ys = filter (\<lambda>u. m (ui_Uuid u) = None) ys"
    "filter (\<lambda>u. \<exists>x. (m(ui_Uuid y := None)) (ui_Uuid u) = Some x \<and> changed x u) ys =
     filter (\<lambda>u. \<exists>x. m (ui_Uuid u) = Some x \<and> changed x u) ys"
    by (rule filter_cong [OF refl], simp only: other)+
  have r: "(m(ui_Uuid y := None)) |` (- ui_Uuid ` set ys) = m |` (- ui_Uuid ` set (y # ys))"
    by (auto simp: restrict_map_def fun_eq_iff)
  show ?case
  proof (cases "m (ui_Uuid y)")
    case None
    then have "m |` (- ui_Uuid ` set (y # ys)) = m |` (- ui_Uuid ` set ys)"
      by (auto simp: restrict_map_def fun_eq_iff)
    then show ?thesis using None Cons.IH [OF d, of m] unfolding compareLoop_step by simp
  next
    case (Some x)
    then show ?thesis
      unfolding compareLoop_step Cons.IH [OF d, of "m(ui_Uuid y := None)"] f r by simp
  qed
qed (simp add: restrict_map_def)

lemma listUsers_left:
  assumes m: "\<And>u x. m u = Some x \<longleftrightarrow> x \<in> S \<and> ui_Uuid x = u" and fin: "finite (dom m)"
  shows "set (listUsers it (m |` A)) = {x \<in> S. ui_Uuid x \<in> A}" and "distinct (listUsers it (m |` A))"
proof -
  have fin': "finite (dom (m |` A))" by (rule finite_subset [OF _ fin]) auto
  have look: "(m |` A) u = Some x \<longleftrightarrow> x \<in> S \<and> ui_Uuid x = u \<and> u \<in> A" for u x
    by (simp add: restrict_map_def m)
  then show "set (listUsers it (m |` A)) = {x \<in> S. ui_Uuid x \<in> A}"
    unfolding set_listUsers [OF fin'] ran_def by auto
  have "inj_on (\<lambda>k. the ((m |` A) k)) (dom (m |` A))"
  proof (rule inj_onI)
    fix k l
    assume "k \<in> dom (m |` A)" "l \<in> dom (m |` A)" and eq: "the ((m |` A) k) = the ((m |` A) l)"
    then obtain x y where "(m |` A) k = Some x" "(m |` A) l = Some y" by blast
    then show "k = l" using eq look by (metis option.sel)
  qed
  then show "distinct (listUsers it (m |` A))"
    unfolding listUsers_def distinct_map using fin' by simp
qed

lemma compareUserList_spec:
  assumes "compareUserList it old new = (deleted, added, modified)"
    and "distinct (map ui_Uuid old)" and "distinct (map ui_Uuid new)"
  shows "set deleted = {x \<in> set old. ui_Uuid x \<notin> ui_Uuid ` set new}"
    and "added = filter (\<lambda>y. ui_Uuid y \<notin> ui_Uuid ` set old) new"
    and "modified = filter (\<lambda>y. \<exists>x \<in> set old. ui_Uuid x = ui_Uuid y \<and> changed x y) new"
    and "distinct deleted"
proof -
  let ?m = "fill_map ui_Uuid Map.empty old"
  have m: "?m u = Some x \<longleftrightarrow> x \<in> set old \<and> ui_Uuid x = u" for u x
  proof
    assume "?m u = Some x"
    from fill_map_Some [OF this] show "x \<in> set old \<and> ui_Uuid x = u" by simp
  next
    assume "x \<in> set old \<and> ui_Uuid x = u"
    then show "?m u = Some x" using fill_map_distinct [OF assms(2), of x Map.empty] by blast
  qed
  have none: "?m u = None \<longleftrightarrow> u \<notin> ui_Uuid ` set old" for u
  proof -
    have "?m u = None \<longleftrightarrow> u \<notin> dom ?m" by (simp only: domIff not_not)
    then show ?thesis unfolding dom_fill_map by simp
  qed
  have fin: "finite (dom ?m)" by simp
  have eqs: "deleted = listUsers it (?m |` (- ui_Uuid ` set new))"
    "added = filter (\<lambda>u. ?m (ui_Uuid u) = None) new"
    "modified = filter (\<lambda>u. \<exists>x. ?m (ui_Uuid u) = Some x \<and> changed x u) new"
    using assms(1) by (auto simp: compareUserList_def compareLoop_spec [OF assms(3)])
  show "set deleted = {x \<in> set old. ui_Uuid x \<notin> ui_Uuid ` set new}"
    unfolding eqs(1) listUsers_left(1) [OF m fin] by simp
  show "distinct deleted"
    unfolding eqs(1) by (rule listUsers_left(2) [OF m fin])
  show "added = filter (\<lambda>y. ui_Uuid y \<notin> ui_Uuid ` set old) new" unfolding eqs(2) none ..
  show "modified = filter (\<lambda>y. \<exists>x \<in> set old. ui_Uuid x = ui_Uuid y \<and> changed x y) new"
    unfolding eqs(3) m by (rule filter_cong [OF refl]) blast
qed

lemma distinct_same: "distinct (map f xs) \<Longrightarrow> x \<in> set xs \<Longrightarrow> y \<in> set xs \<Longrightarrow> f x = f y \<Longrightarrow> x = y"
  by (auto simp: distinct_map dest: inj_onD)

lemma distinct_map_filtered: "distinct (map f xs) \<Longrightarrow> distinct (map f (filter P xs))"
  by (induction xs) auto

lemma unchanged_same: "\<not> changed x y \<Longrightarrow> ui_Uuid x = ui_Uuid y \<Longrightarrow> ui_Id x = ui_Id y \<Longrightarrow> x = y"
  by (cases x; cases y) (simp add: changed_def)

text \<open>
  What the update of a server relies on in a comparison of two user lists: the three lists are
  exactly the users that are gone, new and changed.
\<close>

locale user_comparison =
  fixes compare :: "UserInfo list \<Rightarrow> UserInfo list \<Rightarrow> UserInfo list \<times> UserInfo list \<times> UserInfo list"
  assumes gone: "compare old new = (deleted, added, modified) \<Longrightarrow> distinct (map ui_Uuid old) \<Longrightarrow>
      distinct (map ui_Uuid new) \<Longrightarrow> set deleted = {x \<in> set old. ui_Uuid x \<notin> ui_Uuid ` set new}"
    and fresh: "compare old new = (deleted, added, modified) \<Longrightarrow> distinct (map ui_Uuid old) \<Longrightarrow>
      distinct (map ui_Uuid new) \<Longrightarrow> added = filter (\<lambda>y. ui_Uuid y \<notin> ui_Uuid ` set old) new"
    and altered: "compare old new = (deleted, added, modified) \<Longrightarrow> distinct (map ui_Uuid old) \<Longrightarrow>
      distinct (map ui_Uuid new) \<Longrightarrow>
      modified = filter (\<lambda>y. \<exists>x \<in> set old. ui_Uuid x = ui_Uuid y \<and> changed x y) new"
begin

definition stable_ids :: "UserInfo list \<Rightarrow> UserInfo list \<Rightarrow> bool" where
  "stable_ids old new \<longleftrightarrow> (\<forall>x \<in> set old. \<forall>y \<in> set new. ui_Uuid x = ui_Uuid y \<longrightarrow> ui_Id x = ui_Id y)"

lemma applied_gone:
  assumes cmp: "compare old new = (deleted, added, modified)"
    and d: "distinct (map ui_Uuid old)" "distinct (map ui_Uuid new)" and u: "u \<notin> ui_Uuid ` set new"
  shows "enroll modified (enroll added (expel deleted (enroll old Map.empty))) u = None"
proof -
  have "u \<notin> ui_Uuid ` set modified" "u \<notin> ui_Uuid ` set added"
    using u altered [OF cmp d] fresh [OF cmp d] by auto
  moreover have "u \<in> ui_Uuid ` set deleted \<or> enroll old Map.empty u = None"
  proof (cases "u \<in> ui_Uuid ` set old")
    case True
    then show ?thesis using u unfolding gone [OF cmp d] by blast
  qed (simp add: enroll_other)
  ultimately show ?thesis by (auto simp: enroll_other expel_apply)
qed

lemma applied_kept:
  assumes cmp: "compare old new = (deleted, added, modified)"
    and d: "distinct (map ui_Uuid old)" "distinct (map ui_Uuid new)" and ids: "stable_ids old new"
    and y: "y \<in> set new" "ui_Uuid y \<noteq> ''''" and plain: "y \<notin> set modified"
  shows "enroll added (expel deleted (enroll old Map.empty)) (ui_Uuid y) = Some y"
proof (cases "ui_Uuid y \<in> ui_Uuid ` set old")
  case True
  then obtain x where x: "x \<in> set old" "ui_Uuid x = ui_Uuid y" by (metis imageE)
  then have "\<not> changed x y" using plain y(1) unfolding altered [OF cmp d] set_filter by blast
  moreover have "ui_Id x = ui_Id y" using ids x y(1) unfolding stable_ids_def by blast
  ultimately have "x = y" using unchanged_same x(2) by blast
  then have "enroll old Map.empty (ui_Uuid y) = Some y" using enroll_distinct [OF d(1), of y Map.empty] x y by simp
  moreover have "ui_Uuid y \<notin> ui_Uuid ` set added" 
    using True unfolding fresh [OF cmp d] set_filter by (metis (mono_tags, lifting) imageE mem_Collect_eq)
  moreover have "ui_Uuid y \<notin> ui_Uuid ` set deleted" 
    using y(1) unfolding gone [OF cmp d] by (metis (mono_tags, lifting) imageE image_eqI mem_Collect_eq)
  ultimately show ?thesis by (simp add: enroll_other expel_apply)
next
  case False
  then have "y \<in> set added" using y fresh [OF cmp d] by simp
  moreover have "distinct (map ui_Uuid added)" unfolding fresh [OF cmp d] by (rule distinct_map_filtered [OF d(2)])
  ultimately show ?thesis using enroll_distinct y(2) by blast
qed

lemma applied:
  assumes cmp: "compare old new = (deleted, added, modified)"
    and d: "distinct (map ui_Uuid old)" "distinct (map ui_Uuid new)" and ids: "stable_ids old new"
  shows "enroll modified (enroll added (expel deleted (enroll old Map.empty))) u = enroll new Map.empty u"
proof (cases "u = '''' \<or> u \<notin> ui_Uuid ` set new")
  case True
  then show ?thesis using applied_gone [OF cmp d, of u] by (auto simp: expel_apply enroll_other)
next
  case False
  then obtain y where y: "y \<in> set new" "ui_Uuid y = u" "u \<noteq> ''''" by auto
  have full: "enroll new Map.empty u = Some y" using enroll_distinct [OF d(2)] y by blast
  have part: "distinct (map ui_Uuid modified)" unfolding altered [OF cmp d] by (rule distinct_map_filtered [OF d(2)])
  show ?thesis
  proof (cases "y \<in> set modified")
    case True
    then show ?thesis using full enroll_distinct [OF part True] y by simp
  next
    case plain: False
    have "z = y" if "z \<in> set modified" "ui_Uuid z = u" for z
      using distinct_same [OF d(2), of z y] that y altered [OF cmp d] by auto
    then have "u \<notin> ui_Uuid ` set modified" using plain by blast
    then show ?thesis using full applied_kept [OF cmp d ids y(1) _ plain] y by (simp add: enroll_other)
  qed
qed

lemma nothing:
  assumes cmp: "compare old new = (deleted, added, modified)"
    and d: "distinct (map ui_Uuid old)" "distinct (map ui_Uuid new)" and ids: "stable_ids old new"
  shows "added = [] \<and> deleted = [] \<and> modified = [] \<longleftrightarrow> set old = set new"
proof
  assume "added = [] \<and> deleted = [] \<and> modified = []"
  then have none: "\<forall>y \<in> set new. ui_Uuid y \<in> ui_Uuid ` set old" "\<forall>x \<in> set old. ui_Uuid x \<in> ui_Uuid ` set new"
    "\<forall>y \<in> set new. \<forall>x \<in> set old. ui_Uuid x = ui_Uuid y \<longrightarrow> \<not> changed x y"
    using gone [OF cmp d] fresh [OF cmp d] altered [OF cmp d] by (auto simp: filter_empty_conv)
  have same: "x = y" if "x \<in> set old" "y \<in> set new" "ui_Uuid x = ui_Uuid y" for x y
    using that none(3) unchanged_same ids by (simp add: stable_ids_def)
  show "set old = set new"
  proof (intro equalityI subsetI)
    fix x
    assume x: "x \<in> set old"
    with none(2) obtain y where "y \<in> set new" "ui_Uuid x = ui_Uuid y" by (metis imageE)
    then show "x \<in> set new" using same x by blast
  next
    fix y
    assume y: "y \<in> set new"
    with none(1) obtain x where "x \<in> set old" "ui_Uuid y = ui_Uuid x" by (metis imageE)
    then show "y \<in> set old" using same y by metis
  qed
next
  assume same: "set old = set new"
  then have "set deleted = {}" using gone [OF cmp d] by auto
  moreover have "\<not> changed x y" if "x \<in> set old" "y \<in> set new" "ui_Uuid x = ui_Uuid y" for x y
    using distinct_same [OF d(2), of x y] that same by (auto simp: changed_def)
  ultimately show "added = [] \<and> deleted = [] \<and> modified = []"
    using same fresh [OF cmp d] altered [OF cmp d] by (auto simp: filter_empty_conv)
qed

end

interpretation list_comparison: user_comparison "compareUserList it" for it
  by unfold_locales (fact compareUserList_spec)+



section \<open>The controller and its server know the same users\<close>

lemma process_users [simp]:
  "ex_users (stopLocked e) = ex_users e" "ex_users (snd (startLocked b e)) = ex_users e"
  by (simp_all add: stopLocked_def startLocked_def split: option.split)

lemma apply_users [simp]: "ex_users (fst (snd (applyConfigLocked E b e w))) = ex_users e"
  by (auto simp: applyConfigLocked_def restartLocked_def Let_def case_prod_beta split: sum.split option.split)

lemma server_users_update:
  "server_users (fst (snd (server_UpdateUsers env added deleted modified full s w))) =
     updated_users added deleted modified full (server_users s)"
proof (cases s)
  case (EmbeddedServer e)
  obtain r e' w' where "UpdateUsers (en_key env) (en_order env) added deleted modified full e w = (r, e', w')"
    using prod_cases3 by blast
  then show ?thesis using users_update EmbeddedServer by (simp add: case_prod_beta)
next
  case (ExternalServer e)
  obtain r e1 w1 where u: "user_part (en_key env) (en_order env) added deleted modified full e w = (r, e1, w1)"
    using prod_cases3 by blast
  then have "ex_users e1 = updated_users added deleted modified full (ex_users e)"
    using user_part_frame(8) [of "en_key env" "en_order env" added deleted modified full e w] by simp
  then show ?thesis using u ExternalServer by (simp add: UpdateUsers_parts case_prod_beta split: option.split)
qed

lemma confirm_users [simp]:
  "em_users (ConfirmUserTraffic it ts e) = em_users e" "ex_users (ext_ConfirmUserTraffic it ts x) = ex_users x"
proof -
  have one: "em_users (confirmOne it t e) = em_users e" for t and e :: "'t embedded"
    by (simp add: confirmOne_def Let_def split: option.split)
  show "em_users (ConfirmUserTraffic it ts e) = em_users e"
    unfolding ConfirmUserTraffic_def by (induction ts arbitrary: e) (simp_all add: one)
  have "ex_users (ext_confirmOne it t x) = ex_users x" for t x
    by (simp add: ext_confirmOne_def Let_def split: option.split)
  then show "ex_users (ext_ConfirmUserTraffic it ts x) = ex_users x"
    unfolding ext_ConfirmUserTraffic_def by (induction ts arbitrary: x) simp_all
qed

lemma server_users_frame [simp]:
  "server_users (server_SetAliveList alive s) = server_users s"
  "server_users (snd (server_GetOnlineDevice env s)) = server_users s"
  "server_users (server_move c a b s) = server_users s"
  "server_users (server_ConfirmUserTraffic env ts s) = server_users s"
  "server_users (fst (snd (server_Start env s w))) = server_users s"
proof -
  show "server_users (server_SetAliveList alive s) = server_users s"
    by (cases s) (simp_all add: SetAliveList_def ext_SetAliveList_def)
  show "server_users (snd (server_GetOnlineDevice env s)) = server_users s"
    by (cases s) (simp_all add: GetOnlineDevice_def ext_GetOnlineDevice_def Let_def)
  show "server_users (server_move c a b s) = server_users s"
    by (cases c; cases s) (simp_all add: connMove_def importEvent_def Let_def split: option.split)
  show "server_users (server_ConfirmUserTraffic env ts s) = server_users s"
    by (cases s) simp_all
  show "server_users (fst (snd (server_Start env s w))) = server_users s"
    by (cases s) (auto simp: Start_def ext_Start_def case_prod_beta split: option.split)
qed

text \<open>The invariant: the server's table is that of the controller's list, or a reload is due.\<close>

definition in_sync :: "'t controller \<Rightarrow> bool" where
  "in_sync c \<longleftrightarrow> (\<exists>srv. ct_server c = Some srv \<and>
     (ct_reloadCh c \<or> server_users srv = enroll (ct_userList c) Map.empty))"

text \<open>Activity of the server that leaves its user table alone, as connections and events do.\<close>

definition quiet :: "(source, ('p, 't, 'sc) server_op) activity \<Rightarrow> bool" where
  "quiet a \<longleftrightarrow> (case a of Moved _ _ _ \<Rightarrow> True | Other x \<Rightarrow> \<forall>s. server_users (server_other x s) = server_users s)"

lemma quiet_users: "quiet a \<Longrightarrow> server_users (serve_act a s) = server_users s"
  by (cases a) (simp_all add: quiet_def)

lemma quiet_fold: "list_all quiet as \<Longrightarrow> server_users (fold serve_act as s) = server_users s"
  by (induction as arbitrary: s) (simp_all add: quiet_users)

lemma applyUsers_sync: "in_sync c \<Longrightarrow> in_sync (fst (applyUsers env users c w))"
proof -
  assume "in_sync c"
  then obtain srv where srv: "ct_server c = Some srv" "ct_reloadCh c \<or> server_users srv = enroll (ct_userList c) Map.empty"
    by (auto simp: in_sync_def)
  obtain deleted added modified where cmp: "compareUserList (en_order env) (ct_userList c) users = (deleted, added, modified)"
    using prod_cases3 by blast
  obtain r srv' w' where up: "server_UpdateUsers env added deleted modified (Some users) srv w = (r, srv', w')"
    using prod_cases3 by blast
  then have "server_users srv' = enroll users Map.empty"
    using server_users_update [of env added deleted modified "Some users" srv w] by (simp add: updated_users_def)
  then show ?thesis
    using srv by (simp add: applyUsers_def cmp up Let_def in_sync_def split: option.split)
qed

lemma monitor_sync: "in_sync c \<Longrightarrow> in_sync (fst (snd (nodeInfoMonitor env c w)))"
proof (cases rule: monitor_cases [of env c w])
  case (users api alive newUsers)
  assume "in_sync c"
  then have "in_sync (polled api alive c)" by (auto simp: in_sync_def)
  then show ?thesis using users applyUsers_sync by simp
qed (auto simp: in_sync_def)

lemma report_sync:
  assumes "in_sync c" and f: "\<And>s. server_users (f s) = server_users s"
  shows "in_sync (snd (snd (reportUserTrafficTask env f c)))"
proof -
  have online: "server_users (snd (snd (reportOnline env d ts s))) = server_users s" for d ts s
    by (simp add: reportOnline_def case_prod_beta Let_def split: option.split)
  have "server_users (snd (snd (reportServer env f m d s))) = server_users s" for m d s
    by (simp add: reportServer_def Let_def case_prod_beta online f split: option.split)
  then show ?thesis
    using assms(1) by (auto simp: in_sync_def reportUserTrafficTask_def case_prod_beta split: option.split)
qed

lemma replaced_users:
  "replaceUsersLocked K it us e w = (r, e', w') \<Longrightarrow> em_users e' = enroll us Map.empty"
  "ext_replaceUsersLocked K it us x w = (q, x', w') \<Longrightarrow> ex_users x' = enroll us Map.empty"
proof -
  assume "replaceUsersLocked K it us e w = (r, e', w')"
  then have "e' = fst (snd (replaceUsersLocked K it us e w))" by simp
  then show "em_users e' = enroll us Map.empty" by (simp add: replaceUsersLocked_def users_upsert pruneCounters_def)
next
  assume "ext_replaceUsersLocked K it us x w = (q, x', w')"
  then have "x' = fst (snd (ext_replaceUsersLocked K it us x w))" by simp
  then show "ex_users x' = enroll us Map.empty" by (simp add: ext_replaceUsersLocked_def)
qed

lemma newServer_users:
  assumes "newServer env cfg keyStore node users alive w = (Inr srv, ks, w')"
  shows "server_users srv = enroll users Map.empty"
  using assms
  by (auto simp: newServer_def NewExternal_def NewEmbedded_def Let_def split: if_splits prod.splits sum.splits option.splits
      dest: replaced_users)

text \<open>
  C5. The controller and its server know the same users. A started controller has a server with
  the panel's users, and through every run of the two tasks and all traffic in between the
  server's table is that of the controller's list, or a reload is requested: a failed update
  never goes unnoticed.
\<close>

theorem users_stay_in_sync:
  assumes "ctl_Start env c w = (None, c', w')" and "list_all quiet (concat (map ctl_acts evs))"
  shows "in_sync (fold (\<lambda>ev c. ctl_next ev c) evs c')"
proof -
  obtain node users alive c1 w1 where s: "startupPanelSnapshot env c w = (Inr (node, users, alive), c1, w1)"
    using assms(1) by (auto simp: ctl_Start_def split: prod.splits sum.splits)
  obtain ks srv w2 where n: "newServer env (ct_runtime c1) (ct_keyStore c1) node users alive w1 = (Inr srv, ks, w2)"
    using assms(1) s by (auto simp: ctl_Start_def Let_def split: prod.splits sum.splits)
  obtain r srv' w3 where r: "server_Start env srv w2 = (r, srv', w3)" using prod_cases3 by blast
  then have "ct_server c' = Some srv'" "ct_userList c' = users" "server_users srv' = server_users srv"
    using assms(1) s n server_users_frame(5) [of env srv w2]
    by (auto simp: ctl_Start_def Let_def startTasks_def split: option.splits)
  then have start: "in_sync c'" using newServer_users [OF n] by (simp add: in_sync_def)
  have step: "in_sync (ctl_next ev c)" if "in_sync c" "list_all quiet (ctl_acts ev)" for ev c
  proof (cases ev)
    case (Served a)
    then show ?thesis using that quiet_users [of a] by (auto simp: in_sync_def ctl_acts_def)
  next
    case (Polled env w)
    then show ?thesis using that monitor_sync by simp
  next
    case (Reported env as)
    then show ?thesis using that report_sync [OF that(1) quiet_fold] by (simp add: ctl_acts_def)
  qed
  show ?thesis
    using start assms(2) by (induction evs arbitrary: c') (simp_all add: step)
qed

theorem users_stay_in_sync_witness:
  "in_sync (ctl_next (Reported sampleWorld [Moved (Connection 3) 10 20])
    (ctl_next (Polled sampleWorld savedOS :: (string, unit, unit) ctl_event) startedController))"
  using users_stay_in_sync [OF sample_Start, of "[Polled sampleWorld savedOS, Reported sampleWorld [Moved (Connection 3) 10 20]]"]
  by (simp add: ctl_acts_def quiet_def)

section \<open>An update the panel sends once\<close>

definition unchanged_for :: "Client \<Rightarrow> net \<Rightarrow> bool" where
  "unchanged_for api net \<longleftrightarrow>
     (\<forall>q \<in> {GetConfig (cl_nodeEtag api), GetUsers (cl_userEtag api)}.
        case net q of HttpResponse resp \<Rightarrow> rp_Status resp = 304 | _ \<Rightarrow> False)"

lemma unchanged_polls:
  assumes "unchanged_for api (en_net env)"
  shows "GetNodeInfo (en_decodeNode env) (en_fconv env) (en_net env) api = (Inr None, api)"
    and "GetUserList (en_msgpackUsers env) (en_jsonUsers env) (en_net env) api = (Inr None, api)"
  using assms by (auto simp: unchanged_for_def GetNodeInfo_def GetUserList_def split: http.splits)

lemma unchanged_monitor:
  assumes "unchanged_for (ct_apiClient c) (en_net env)" and "c' = fst (snd (nodeInfoMonitor env c w))"
  shows "ct_apiClient c' = ct_apiClient c \<and> ct_userList c' = ct_userList c \<and> ct_reloadCh c' = ct_reloadCh c \<and>
    map_option server_users (ct_server c') = map_option server_users (ct_server c)"
  unfolding assms(2) nodeInfoMonitor_def
  by (simp add: unchanged_polls [OF assms(1)] Let_def option.map_comp comp_def split: sum.split)


definition lateWorld :: "(string, unit, unit) env" where
  "lateWorld = sampleWorld\<lparr>en_net := (\<lambda>q. if q = GetAlive then HttpError DeadlineExceeded else sampleNet q),
     en_jsonUsers := (\<lambda>_. Some (Some [sampleUser 2 ''b'']))\<rparr>"


section \<open>Starting without the panel\<close>


definition cachedSnapshot :: panelSnapshot where
  "cachedSnapshot = \<lparr>sn_APIHost = ''h'', sn_NodeID = 7, sn_Node = Some settledNode,
     sn_Users = [sampleUser 1 ''a''], sn_Alive = Map.empty, sn_SavedAt = 5\<rparr>"

text \<open>A world with a disk, and the same world without its panel.\<close>

definition diskWorld :: "(string, unit, unit) env" where
  "diskWorld = sampleWorld\<lparr>en_encodeSnapshot := (\<lambda>_. Some ''{}''), en_decodeSnapshot := (\<lambda>_. Some cachedSnapshot)\<rparr>"

definition noPanelWorld :: "(string, unit, unit) env" where
  "noPanelWorld = diskWorld\<lparr>en_net := (\<lambda>_. HttpError (TransportError ''connection refused''))\<rparr>"

lemma sampleController_simps [simp]:
  "ct_apiClient sampleController = fst (NewClient sampleConf)" "ct_conf sampleController = sampleConf"
  "ct_runtime sampleController = autoConfig 1" "ct_keyStore sampleController = sampleStore None"
  "nc_NodeID sampleConf = 7" "cl_APIHost (fst (NewClient sampleConf)) = ''h''"
  by (simp_all add: sampleController_def NewController_def sampleConf_def NewClient_def)


section \<open>What a start leaves\<close>

lemma GetNodeInfo_acceptable:
  "GetNodeInfo decode fconv net api = (Inr (Some node), api') \<Longrightarrow>
     \<exists>cfg. acceptable cfg \<and> node = settleNode fconv cfg (cl_NodeID api) (cl_APIHost api)"
proof -
  assume "GetNodeInfo decode fconv net api = (Inr (Some node), api')"
  then obtain cfg where "Normalize fconv cfg (cl_NodeID api) (cl_APIHost api) = (None, node)"
    by (auto simp: GetNodeInfo_def Let_def split: http.splits if_splits option.splits prod.splits)
  moreover from this have "acceptable cfg" by (metis Normalize_acceptable fst_conv)
  ultimately show ?thesis by (auto simp: Normalize_ok)
qed

lemma startup_normalized:
  assumes "startupPanelSnapshot env c w = (Inr (node, users, alive), c', w')"
  shows "normalized (nc_NodeID (ct_conf c)) (cl_APIHost (ct_apiClient c)) node"
    and "ct_runtime c' = ct_runtime c"
proof -
  let ?id = "nc_NodeID (ct_conf c)" and ?host = "cl_APIHost (ct_apiClient c)"
  obtain r api where f: "fetchPanelSnapshot env (ct_apiClient c) = (r, api)" by fastforce
  show "ct_runtime c' = ct_runtime c"
    using assms f by (auto simp: startupPanelSnapshot_def split: sum.splits if_splits prod.splits)
  show "normalized ?id ?host node"
  proof (cases r)
    case (Inr s)
    obtain n us al where s: "s = (n, us, al)" by (cases s)
    obtain api1 where "GetNodeInfo (en_decodeNode env) (en_fconv env) (en_net env) (ct_apiClient c) = (Inr (Some n), api1)"
      using f Inr s by (auto simp: fetchPanelSnapshot_def split: prod.splits sum.splits option.splits)
    then have "acceptable n" using GetNodeInfo_acceptable by fastforce
    moreover from this have "fst (snd (savePanelSnapshot env c (Some n) us al w)) = Some (settleNode (en_fconv env) n ?id ?host)"
      by (simp add: savePanelSnapshot_def Normalize_ok case_prod_beta split: option.split)
    ultimately show ?thesis
      using assms f Inr s normalized_settleNode
      by (auto simp: startupPanelSnapshot_def split: prod.splits)
  next
    case (Inl err)
    then obtain snap where snap: "readPanelSnapshot env c w = Inr snap" "node = the (sn_Node snap)"
      using assms f by (auto simp: startupPanelSnapshot_def split: if_splits sum.splits)
    then obtain n n' where "Normalize (en_fconv env) n ?id ?host = (None, n')" "sn_Node snap = Some n'"
      by (auto simp: readPanelSnapshot_def split: sum.splits option.splits if_splits prod.splits)
    then show ?thesis
      using snap normalized_settleNode [of n] by (metis Normalize_acceptable Normalize_ok fst_conv option.sel prod.inject)
  qed
qed

text \<open>
  C13. The form of a started controller. A start that succeeds, from the panel or from the cache,
  leaves a node that was normalized for this node id and host, a server of the configured
  engine, and both tasks with a positive interval.
\<close>

theorem started_controller_typed:
  assumes "ctl_Start env c w = (None, c', w')"
  shows "\<exists>node srv. ct_info c' = Some node \<and> normalized (nc_NodeID (ct_conf c)) (cl_APIHost (ct_apiClient c)) node \<and>
    ct_server c' = Some srv \<and> (EngineName (ct_runtime c) = EngineExternal \<longleftrightarrow> (\<exists>e. srv = ExternalServer e)) \<and>
    ct_tasks c' = Some (ni_PullInterval node, ni_PushInterval node) \<and>
    0 < ni_PullInterval node \<and> 0 < ni_PushInterval node"
proof -
  obtain node users alive c1 w1 where s: "startupPanelSnapshot env c w = (Inr (node, users, alive), c1, w1)"
    using assms by (auto simp: ctl_Start_def split: prod.splits sum.splits)
  obtain ks srv w2 where n: "newServer env (ct_runtime c1) (ct_keyStore c1) node users alive w1 = (Inr srv, ks, w2)"
    using assms s by (auto simp: ctl_Start_def Let_def split: prod.splits sum.splits)
  obtain srv' w3 where r: "server_Start env srv w2 = (None, srv', w3)"
    and c': "ct_server c' = Some srv'" "ct_info c' = Some node" "ct_tasks c' = Some (ni_PullInterval node, ni_PushInterval node)"
    using assms s n by (auto simp: ctl_Start_def Let_def startTasks_def split: prod.splits sum.splits option.splits)
  note N = startup_normalized [OF s]
  have "EngineName (ct_runtime c) = EngineExternal \<longleftrightarrow> (\<exists>e. srv = ExternalServer e)"
    using n N(2) by (auto simp: newServer_def split: if_splits prod.splits sum.splits)
  moreover have "(\<exists>e. srv' = ExternalServer e) \<longleftrightarrow> (\<exists>e. srv = ExternalServer e)"
    using r by (cases srv) (auto split: prod.splits)
  ultimately show ?thesis using c' N(1) by (simp add: normalized_def)
qed

theorem started_controller_typed_witness:
  "normalized 7 ''h'' settledNode \<and> ct_tasks startedController = Some (60000000000, 30000000000)"
proof -
  have "ni_PullInterval settledNode = 60000000000 \<and> ni_PushInterval settledNode = 30000000000"
    by (simp add: settledNode_def settleNode_def sample_node_def resolveInterval_def seconds_exact Minute_eq Second_def)
  then show ?thesis
    using started_controller_typed [OF sample_Start] by (auto simp: startedController_def)
qed

end
