(* ===== verification/Task.thy ===== *)
theory Task
  imports Controller
begin

text \<open>
  \<open>internal/task/task.go\<close>: the periodic task. A task has a goroutine that waits for its timer or
  its stop channel and then executes; \<open>Start\<close> and \<open>Close\<close> are called by the owner. The model
  is a transition system: the two calls are functions, what the goroutines do is one event
  each, and an event that cannot happen has no result.

  A stop channel is a number, and the task records which are closed. What an execution does
  is seen by how it ends: it runs out of its time, or it gives back an error or nil.
\<close>

text \<open>
  Where a goroutine is: about to evaluate \<open>select\<close> (with the timer reset), in \<open>select\<close> on the
  channel that \<open>t.Stop\<close> was then (and whether that was already closed), executing, or ended.
\<close>

datatype loop = Entering | Selecting nat bool | Executing | Ended

record task =
  tk_Interval :: int64
  tk_Running :: bool
  tk_ReloadCh :: "bool option"
  tk_Stop :: "nat option"
  tk_closed :: "bool list"
  tk_loops :: "loop list"

definition newTask :: "int64 \<Rightarrow> bool option \<Rightarrow> task" where
  "newTask interval reloadCh =
     \<lparr>tk_Interval = interval, tk_Running = False, tk_ReloadCh = reloadCh, tk_Stop = None, tk_closed = [], tk_loops = []\<rparr>"

definition task_Start :: "bool \<Rightarrow> task \<Rightarrow> task" where
  "task_Start first t =
     (if tk_Running t then t
      else t\<lparr>tk_Running := True, tk_Stop := Some (length (tk_closed t)), tk_closed := tk_closed t @ [False],
             tk_loops := tk_loops t @ [if first then Executing else Entering]\<rparr>)"

definition task_Close :: "task \<Rightarrow> task" where
  "task_Close t =
     (if tk_Running t
      then t\<lparr>tk_Running := False,
             tk_closed := (case tk_Stop t of None \<Rightarrow> tk_closed t | Some s \<Rightarrow> (tk_closed t)[s := True])\<rparr>
      else t)"

section \<open>One execution\<close>

text \<open>
  The time an execution gets. The product is a \<open>time.Duration\<close>, so for an interval of more than
  58 years it wraps; such an execution has no time at all.
\<close>

definition execTimeout :: "task \<Rightarrow> int64" where
  "execTimeout t = min (wrap64 (5 * tk_Interval t)) (5 * Minute)"

datatype 'e execution = TimedOut | Finished "'e option"

definition signalReload :: "task \<Rightarrow> task" where
  "signalReload t = t\<lparr>tk_ReloadCh := map_option (\<lambda>_. True) (tk_ReloadCh t)\<rparr>"

definition ExecuteWithTimeout :: "('e \<Rightarrow> bool) \<Rightarrow> 'e execution \<Rightarrow> task \<Rightarrow> 'e option \<times> task" where
  "ExecuteWithTimeout isContext out t =
     (case out of
        TimedOut \<Rightarrow> (None, signalReload t)
      | Finished None \<Rightarrow> (None, t)
      | Finished (Some err) \<Rightarrow> if isContext err then (None, t) else (Some err, t))"

section \<open>The goroutine\<close>

datatype 'e task_event = Enters nat | Fires nat | Stops nat | Executes nat "'e execution"

definition at_loop :: "task \<Rightarrow> nat \<Rightarrow> loop option" where
  "at_loop t i = (if i < length (tk_loops t) then Some (tk_loops t ! i) else None)"

definition set_loop :: "nat \<Rightarrow> loop \<Rightarrow> task \<Rightarrow> task" where
  "set_loop i p t = t\<lparr>tk_loops := (tk_loops t)[i := p]\<rparr>"

definition is_closed :: "task \<Rightarrow> nat \<Rightarrow> bool" where
  "is_closed t s \<longleftrightarrow> s < length (tk_closed t) \<and> tk_closed t ! s"

text \<open>
  A timer that has just been reset to a positive interval has not fired yet, so a \<open>select\<close> that
  finds the channel closed on entry takes that case; when the channel is closed later, either
  may win.
\<close>

fun task_next :: "('e \<Rightarrow> bool) \<Rightarrow> 'e task_event \<Rightarrow> task \<Rightarrow> task option" where
  "task_next isContext (Enters i) t =
     (case (at_loop t i, tk_Stop t) of
        (Some Entering, Some s) \<Rightarrow> Some (set_loop i (Selecting s (is_closed t s)) t)
      | _ \<Rightarrow> None)"
| "task_next isContext (Fires i) t =
     (case at_loop t i of
        Some (Selecting s late) \<Rightarrow> if late \<and> 0 < tk_Interval t then None else Some (set_loop i Executing t)
      | _ \<Rightarrow> None)"
| "task_next isContext (Stops i) t =
     (case at_loop t i of
        Some (Selecting s late) \<Rightarrow> if is_closed t s then Some (set_loop i Ended t) else None
      | _ \<Rightarrow> None)"
| "task_next isContext (Executes i out) t =
     (case at_loop t i of
        Some Executing \<Rightarrow>
          (case ExecuteWithTimeout isContext out t of
             (None, t1) \<Rightarrow> Some (set_loop i Entering t1)
           | (Some err, t1) \<Rightarrow> Some (set_loop i Ended t1))
      | _ \<Rightarrow> None)"

fun task_run :: "('e \<Rightarrow> bool) \<Rightarrow> 'e task_event list \<Rightarrow> task \<Rightarrow> task option" where
  "task_run isContext [] t = Some t"
| "task_run isContext (ev # evs) t = Option.bind (task_next isContext ev t) (task_run isContext evs)"

lemmas loop_simps = at_loop_def set_loop_def is_closed_def ExecuteWithTimeout_def signalReload_def

lemma execTimeout_positive:
  "0 < tk_Interval t \<Longrightarrow> tk_Interval t \<le> 1844674407370955161 \<Longrightarrow>
     0 < execTimeout t \<and> execTimeout t \<le> 5 * tk_Interval t"
proof -
  assume i: "0 < tk_Interval t" "tk_Interval t \<le> 1844674407370955161"
  then have "wrap64 (5 * tk_Interval t) = 5 * tk_Interval t" by (simp add: in64_def)
  then show ?thesis using i by (simp add: execTimeout_def Minute_eq)
qed

section \<open>The controller's tasks\<close>

lemma monitor_error: "fst (nodeInfoMonitor env c w) = Some err \<Longrightarrow> contextError err"
  by (auto simp: nodeInfoMonitor_def Let_def split: prod.splits sum.splits option.splits if_splits)

lemma report_error: "fst (reportUserTrafficTask env f c) = Some err \<Longrightarrow> contextError err"
  by (auto simp: reportUserTrafficTask_def reportServer_def reportOnline_def Let_def
      split: prod.splits option.splits if_splits)

lemma context_execution_nil:
  "(\<And>err. out = Finished (Some err) \<Longrightarrow> isContext err) \<Longrightarrow> fst (ExecuteWithTimeout isContext out t) = None"
  by (auto simp: ExecuteWithTimeout_def split: execution.split option.split)

text \<open>
  What every step of a loop keeps, as long as executions end with a context error or nil and
  nobody calls \<open>Close\<close>: one loop, which is not over, and the channel it selects on is open.
\<close>

definition looping :: "task \<Rightarrow> bool" where
  "looping t \<longleftrightarrow> tk_Running t \<and> (\<exists>p s. tk_loops t = [p] \<and> p \<noteq> Ended \<and> tk_Stop t = Some s \<and> s < length (tk_closed t) \<and>
     \<not> is_closed t s \<and> (\<forall>s' late. p = Selecting s' late \<longrightarrow> s' = s))"

lemma looping_step:
  assumes "looping t" and "task_next isContext ev t = Some t'"
    and "\<And>i out err. ev = Executes i out \<Longrightarrow> out = Finished (Some err) \<Longrightarrow> isContext err"
  shows "looping t'"
    and "tk_ReloadCh t' = (if \<exists>i. ev = Executes i TimedOut then map_option (\<lambda>_. True) (tk_ReloadCh t) else tk_ReloadCh t)"
proof -
  obtain p s where t: "tk_loops t = [p]" "p \<noteq> Ended" "tk_Stop t = Some s" "\<not> is_closed t s" "tk_Running t"
    "s < length (tk_closed t)" "\<And>s' late. p = Selecting s' late \<Longrightarrow> s' = s"
    using assms(1) unfolding looping_def by blast
  show "looping t'"
    "tk_ReloadCh t' = (if \<exists>i. ev = Executes i TimedOut then map_option (\<lambda>_. True) (tk_ReloadCh t) else tk_ReloadCh t)"
    using assms(2,3) t
    by (cases ev; auto simp: looping_def loop_simps split: option.splits loop.splits if_splits execution.splits)+
qed

lemma looping_run:
  assumes "looping t" and "task_run isContext evs t = Some t'"
    and "\<And>i out err. Executes i out \<in> set evs \<Longrightarrow> out = Finished (Some err) \<Longrightarrow> isContext err"
  shows "looping t' \<and> tk_ReloadCh t' =
    (if \<exists>i. Executes i TimedOut \<in> set evs then map_option (\<lambda>_. True) (tk_ReloadCh t) else tk_ReloadCh t)"
  using assms
proof (induction evs arbitrary: t)
  case (Cons ev evs)
  obtain t1 where t1: "task_next isContext ev t = Some t1" "task_run isContext evs t1 = Some t'"
    using Cons.prems(2) by (cases "task_next isContext ev t") auto
  have ok: "isContext err" if "ev = Executes i out" "out = Finished (Some err)" for i out err
    using Cons.prems(3) [of i out err] that by simp
  have tail: "isContext err" if "Executes i out \<in> set evs" "out = Finished (Some err)" for i out err
    using Cons.prems(3) [of i out err] that by simp
  note L = looping_step [OF Cons.prems(1) t1(1) ok]
  from Cons.IH [OF L(1) t1(2) tail] L(2) show ?case
    by (auto simp: option.map_comp comp_def)
qed simp



section \<open>Closing a task\<close>

text \<open>How many events a loop whose channel is closed can still have.\<close>

fun remaining :: "loop \<Rightarrow> nat" where
  "remaining (Selecting s late) = (if late then 1 else 4)"
| "remaining Executing = 3"
| "remaining Entering = 2"
| "remaining Ended = 0"

definition closing :: "task \<Rightarrow> loop \<Rightarrow> bool" where
  "closing t p \<longleftrightarrow> 0 < tk_Interval t \<and> tk_loops t = [p] \<and> (\<forall>s late. p = Selecting s late \<longrightarrow> is_closed t s) \<and>
     (\<exists>s. tk_Stop t = Some s \<and> is_closed t s)"

lemma closing_step:
  assumes "closing t p" and "task_next isContext ev t = Some t'"
  shows "\<exists>p'. closing t' p' \<and> remaining p' < remaining p"
proof (cases ev)
  case (Enters i)
  then show ?thesis using assms
    by (auto simp: closing_def loop_simps split: option.splits if_splits loop.splits)
next
  case (Fires i)
  then show ?thesis using assms
    by (auto simp: closing_def loop_simps split: option.splits if_splits loop.splits)
next
  case (Stops i)
  then show ?thesis using assms
    by (auto simp: closing_def loop_simps split: option.splits if_splits loop.splits)
next
  case (Executes i out)
  then show ?thesis using assms
    by (auto simp: closing_def loop_simps split: option.splits if_splits loop.splits execution.splits)
qed

lemma closing_run:
  "closing t p \<Longrightarrow> task_run isContext evs t = Some t' \<Longrightarrow> \<exists>p'. closing t' p' \<and> remaining p' + length evs \<le> remaining p"
proof (induction evs arbitrary: t p)
  case (Cons ev evs)
  obtain t1 where t1: "task_next isContext ev t = Some t1" "task_run isContext evs t1 = Some t'"
    using Cons.prems(2) by (cases "task_next isContext ev t") auto
  obtain p1 where p1: "closing t1 p1" "remaining p1 < remaining p" using closing_step [OF Cons.prems(1) t1(1)] by blast
  from Cons.IH [OF p1(1) t1(2)] obtain p' where "closing t' p'" "remaining p' + length evs \<le> remaining p1" by blast
  then show ?case using p1(2) by (intro exI [of _ p']) simp
qed auto

lemma closing_progress: "closing t p \<Longrightarrow> p \<noteq> Ended \<Longrightarrow> \<exists>ev. task_next isContext ev t \<noteq> None"
proof (cases p)
  case (Selecting s late)
  assume "closing t p"
  then show ?thesis using Selecting by (intro exI [of _ "Stops 0"]) (auto simp: closing_def loop_simps)
next
  case Executing
  assume "closing t p"
  then show ?thesis using Executing by (intro exI [of _ "Executes 0 TimedOut"]) (auto simp: closing_def loop_simps)
next
  case Entering
  assume "closing t p"
  then show ?thesis using Entering by (intro exI [of _ "Enters 0"]) (auto simp: closing_def loop_simps)
qed simp

lemma task_next_interval: "task_next isContext ev t = Some t' \<Longrightarrow> tk_Interval t' = tk_Interval t"
  by (cases ev) (auto simp: loop_simps split: option.splits loop.splits if_splits execution.splits)

lemma task_run_interval: "task_run isContext evs t = Some t' \<Longrightarrow> tk_Interval t' = tk_Interval t"
proof (induction evs arbitrary: t)
  case (Cons ev evs)
  then show ?case by (cases "task_next isContext ev t") (auto simp: task_next_interval)
qed simp



section \<open>Starting a task again\<close>

text \<open>
  A task that is closed during an execution and started again before it ends keeps its old
  goroutine: the loop reads \<open>t.Stop\<close> anew each time and selects on the new channel, so from
  then on two goroutines execute the task. (The controller makes new tasks for every start.)
\<close>

lemma restart_leaks_loop:
  "Option.bind (task_run contextError [Enters 0, Fires 0] (task_Start False (newTask Minute None)))
     (\<lambda>t. map_option tk_loops (task_run contextError [Executes 0 (Finished None), Enters 0, Enters 1]
        (task_Start False (task_Close t)))) = Some [Selecting 1 False, Selecting 1 False]"
  by (simp add: task_Start_def task_Close_def newTask_def loop_simps)

end
