(* ===== verification/Run_Node.thy ===== *)
theory Run_Node
  imports Task
begin

text \<open>
  \<open>main.go\<close>: the loop that keeps one node running (\<open>runNode\<close>), the log setup and the log
  format. \<open>main\<close> reads the flags, loads the configuration, starts one \<open>runNode\<close> per configured
  node on one shared key store and waits for a signal; the nodes do not touch each other
  otherwise. The model of the loop is a transition system: what the goroutine of \<open>runNode\<close>
  does, what the controller's tasks do beside it, also the run of a task that is still under
  way when its controller is closed, and the cancellation of the context.
\<close>

section \<open>The loop\<close>

datatype node_phase = AtTop | Sleeping int64 | Serving | Returned

record 't node =
  nd_phase :: node_phase
  nd_cancelled :: bool
  nd_reloadCh :: bool
  nd_controller :: "'t controller option"
  nd_left :: "'t controller list"

text \<open>
  \<open>Begins\<close> takes the world, the key store and the disk as the start meets them: the other nodes
  share both. \<open>Late\<close> is a task run of a controller that has been left.
\<close>

datatype ('p, 't, 'sc) node_event =
    Cancels
  | Begins "('p, 't, 'sc) env" ClientKeyStore os
  | Runs "('p, 't, 'sc) ctl_event"
  | Late nat "('p, 't, 'sc) ctl_event"
  | Reloads
  | Leaves
  | Wakes

definition newNode :: "'t node" where
  "newNode = \<lparr>nd_phase = AtTop, nd_cancelled = False, nd_reloadCh = False, nd_controller = None, nd_left = []\<rparr>"

text \<open>The controllers of a node share its reload channel.\<close>

definition ctl_event_on ::
  "('p, 't, 'sc) ctl_event \<Rightarrow> bool \<Rightarrow> 't controller \<Rightarrow> 't controller"
where
  "ctl_event_on ev reload c = ctl_next ev (c\<lparr>ct_reloadCh := reload\<rparr>)"

fun node_next ::
  "NodeConfig \<Rightarrow> RuntimeConfig \<Rightarrow> ('p, 't, 'sc) node_event \<Rightarrow> 't node \<Rightarrow> 't node option"
where
  "node_next nodeCfg runtimeCfg Cancels n = Some (n\<lparr>nd_cancelled := True\<rparr>)"
| "node_next nodeCfg runtimeCfg (Begins env keyStore w) n =
     (if nd_phase n \<noteq> AtTop then None
      else if nd_cancelled n then Some (n\<lparr>nd_phase := Returned\<rparr>)
      else case ctl_Start env
          (NewController (fst (NewClient nodeCfg)) nodeCfg runtimeCfg keyStore (nd_reloadCh n)) w of
        (Some err, c, w') \<Rightarrow> Some (n\<lparr>nd_phase := Sleeping (10 * Second), nd_left := nd_left n @ [c]\<rparr>)
      | (None, c, w') \<Rightarrow> Some (n\<lparr>nd_phase := Serving, nd_controller := Some c\<rparr>))"
| "node_next nodeCfg runtimeCfg (Runs ev) n =
     (case nd_controller n of
        None \<Rightarrow> None
      | Some c \<Rightarrow>
          let c' = ctl_event_on ev (nd_reloadCh n) c in
          Some (n\<lparr>nd_controller := Some c', nd_reloadCh := ct_reloadCh c'\<rparr>))"
| "node_next nodeCfg runtimeCfg (Late i ev) n =
     (if i < length (nd_left n)
      then
        let c' = ctl_event_on ev (nd_reloadCh n) (nd_left n ! i) in
        Some (n\<lparr>nd_left := (nd_left n)[i := c'], nd_reloadCh := ct_reloadCh c'\<rparr>)
      else None)"
| "node_next nodeCfg runtimeCfg Reloads n =
     (case (nd_phase n, nd_controller n) of
        (Serving, Some c) \<Rightarrow>
          if nd_reloadCh n
          then Some (n\<lparr>nd_phase := Sleeping Second, nd_reloadCh := False, nd_controller := None,
                       nd_left := nd_left n @ [ctl_Close c]\<rparr>)
          else None
      | _ \<Rightarrow> None)"
| "node_next nodeCfg runtimeCfg Leaves n =
     (case (nd_phase n, nd_controller n) of
        (Serving, Some c) \<Rightarrow>
          if nd_cancelled n
          then Some (n\<lparr>nd_phase := Returned, nd_controller := None, nd_left := nd_left n @ [ctl_Close c]\<rparr>)
          else None
      | _ \<Rightarrow> None)"
| "node_next nodeCfg runtimeCfg Wakes n =
     (case nd_phase n of Sleeping d \<Rightarrow> Some (n\<lparr>nd_phase := AtTop\<rparr>) | _ \<Rightarrow> None)"

fun node_run ::
  "NodeConfig \<Rightarrow> RuntimeConfig \<Rightarrow> ('p, 't, 'sc) node_event list \<Rightarrow> 't node \<Rightarrow> 't node option"
where
  "node_run nodeCfg runtimeCfg [] n = Some n"
| "node_run nodeCfg runtimeCfg (ev # evs) n =
     Option.bind (node_next nodeCfg runtimeCfg ev n) (node_run nodeCfg runtimeCfg evs)"

section \<open>A server that does not run\<close>

text \<open>
  A server runs when its listener is open or one of its processes is alive. A server that does
  not run stays so under everything that is done to it but a start.
\<close>

fun server_running :: "'t server \<Rightarrow> bool" where
  "server_running (EmbeddedServer e) \<longleftrightarrow> em_listening e"
| "server_running (ExternalServer e) \<longleftrightarrow> list_ex id (ex_procs e)"

fun sound_server :: "'t server \<Rightarrow> bool" where
  "sound_server (EmbeddedServer e) \<longleftrightarrow> (em_closed e \<longrightarrow> \<not> em_listening e)"
| "sound_server (ExternalServer e) \<longleftrightarrow> one_process e"

lemma process_runs: "list_ex id (ex_procs e) \<longleftrightarrow> (\<exists>p. running e p)"
  by (simp add: list_ex_length running_def)

lemma one_process_runs: "one_process e \<Longrightarrow> list_ex id (ex_procs e) \<longleftrightarrow> ex_cmd e \<noteq> None"
  unfolding process_runs one_process_def by (metis not_None_eq)

text \<open>Only \<open>Start\<close> and \<open>Close\<close> touch the listener.\<close>

lemma listener_frame [simp]:
  "em_listening (claimCounter i u e) = em_listening e" "em_closed (claimCounter i u e) = em_closed e"
  "em_listening (upsertUserLocked x e) = em_listening e" "em_closed (upsertUserLocked x e) = em_closed e"
  "em_listening (deleteUserLocked x e) = em_listening e" "em_closed (deleteUserLocked x e) = em_closed e"
  "em_listening (pruneCounters e) = em_listening e" "em_closed (pruneCounters e) = em_closed e"
  "em_listening (fst (snd (rebuildUserHashesLocked K it e w))) = em_listening e"
  "em_closed (fst (snd (rebuildUserHashesLocked K it e w))) = em_closed e"
  "em_listening (connMove c a b e) = em_listening e" "em_closed (connMove c a b e) = em_closed e"
  "em_listening (confirmOne it t e) = em_listening e" "em_closed (confirmOne it t e) = em_closed e"
  by (simp_all add: claimCounter_def upsertUserLocked_def deleteUserLocked_def pruneCounters_def rebuildUserHashesLocked_def
      connMove_def confirmOne_def Let_def split: option.split prod.split sum.split)

lemma listener_folds [simp]:
  "em_listening (fold upsertUserLocked xs e) = em_listening e" "em_closed (fold upsertUserLocked xs e) = em_closed e"
  "em_listening (fold deleteUserLocked xs e) = em_listening e" "em_closed (fold deleteUserLocked xs e) = em_closed e"
  "em_listening (ConfirmUserTraffic it ts e) = em_listening e" "em_closed (ConfirmUserTraffic it ts e) = em_closed e"
  unfolding ConfirmUserTraffic_def
  by (induction xs arbitrary: e; simp)+ (induction ts arbitrary: e; simp)+

lemma listener_update [simp]:
  "em_listening (fst (snd (UpdateUsers K it added deleted modified full e w))) = em_listening e"
  "em_closed (fst (snd (UpdateUsers K it added deleted modified full e w))) = em_closed e"
  by (simp_all add: UpdateUsers_def replaceUsersLocked_def split: option.split)

lemma listener_login [simp]:
  "em_listening (snd (handleSudokuConn c shake fb remote now msgs e)) = em_listening e"
  "em_closed (snd (handleSudokuConn c shake fb remote now msgs e)) = em_closed e"
  by (simp_all add: handleSudokuConn_def counterForUserHash_def Let_def case_prod_beta split: handshake.split option.split)

lemma emb_other_listener [simp]:
  "em_listening (emb_other x e) \<longleftrightarrow> em_listening e \<and> (x = CloseOp \<longrightarrow> em_closed e)"
  "em_closed (emb_other x e) \<longleftrightarrow> em_closed e \<or> x = CloseOp"
  by (cases x; simp add: SetAliveList_def GetOnlineDevice_def Let_def registerConn_def unregisterConn_def markOffline_def
      Close_def split: option.split)+

lemma external_same:
  assumes "ex_cmd e' = ex_cmd e" "ex_procs e' = ex_procs e"
  shows "one_process e' = one_process e" "list_ex id (ex_procs e') = list_ex id (ex_procs e)"
  using one_process_same [OF assms] assms(2) by simp_all

lemma external_traffic [simp]:
  "ex_cmd (importEvent now ev e) = ex_cmd e" "ex_procs (importEvent now ev e) = ex_procs e"
  "ex_cmd (ext_ConfirmUserTraffic it ts e) = ex_cmd e" "ex_procs (ext_ConfirmUserTraffic it ts e) = ex_procs e"
proof -
  show "ex_cmd (importEvent now ev e) = ex_cmd e" "ex_procs (importEvent now ev e) = ex_procs e"
    by (simp_all add: importEvent_def Let_def)
  have "ex_cmd (ext_confirmOne it t e) = ex_cmd e" "ex_procs (ext_confirmOne it t e) = ex_procs e" for t e
    by (simp_all add: ext_confirmOne_def Let_def split: option.split)
  then show "ex_cmd (ext_ConfirmUserTraffic it ts e) = ex_cmd e" "ex_procs (ext_ConfirmUserTraffic it ts e) = ex_procs e"
    unfolding ext_ConfirmUserTraffic_def by (induction ts arbitrary: e; simp)+
qed

lemma one_process_traffic [simp]:
  "one_process (importEvent now ev e) = one_process e"
  "one_process (ext_ConfirmUserTraffic it ts e) = one_process e"
  by (rule external_same(1); simp)+

lemma apply_stopped: "ex_cmd e = None \<Longrightarrow> ex_cmd (fst (snd (applyConfigLocked E b e w))) = None"
  by (simp add: applyConfigLocked_def Let_def case_prod_beta split: sum.split option.split)

lemma update_stopped:
  "ex_cmd e = None \<Longrightarrow> ex_cmd (fst (snd (ext_UpdateUsers E K it b added deleted modified full e w))) = None"
proof -
  obtain r e1 w1 where u: "user_part K it added deleted modified full e w = (r, e1, w1)" using prod_cases3 by blast
  assume "ex_cmd e = None"
  then have "ex_cmd e1 = None" using user_part_frame(2) [of K it added deleted modified full e w] by (simp add: u)
  then show ?thesis by (simp add: apply_stopped UpdateUsers_parts u split: option.split)
qed

definition stopped :: "'t server \<Rightarrow> bool" where
  "stopped s \<longleftrightarrow> sound_server s \<and> \<not> server_running s"

lemma sound_steps:
  "sound_server s \<Longrightarrow> sound_server (server_move c a b s)"
  "sound_server s \<Longrightarrow> sound_server (server_other x s)"
  "sound_server s \<Longrightarrow> sound_server (server_ConfirmUserTraffic env ts s)"
proof -
  assume s: "sound_server s"
  then show "sound_server (server_move c a b s)"
    by (cases c; cases s) simp_all
  show "sound_server (server_ConfirmUserTraffic env ts s)"
    using s by (cases s) simp_all
  show "sound_server (server_other x s)"
  proof (cases s)
    case (EmbeddedServer e)
    then show ?thesis using s by (cases x) (auto split: if_splits)
  next
    case (ExternalServer e)
    then show ?thesis using s ext_keeps_one [OF keeps_ext_other] by (cases x) auto
  qed
qed

lemma stopped_steps:
  "stopped s \<Longrightarrow> stopped (server_move c a b s)"
  "tame x \<Longrightarrow> stopped s \<Longrightarrow> stopped (server_other x s)"
  "stopped s \<Longrightarrow> stopped (server_ConfirmUserTraffic env ts s)"
proof -
  assume s: "stopped s"
  then show "stopped (server_move c a b s)"
    using sound_steps(1) [of s c a b] by (cases c; cases s) (simp_all add: stopped_def)
  show "stopped (server_ConfirmUserTraffic env ts s)"
    using s sound_steps(3) [of s env ts] by (cases s) (simp_all add: stopped_def)
  assume x: "tame x"
  have sound: "sound_server (server_other x s)" using s by (simp add: stopped_def sound_steps(2))
  show "stopped (server_other x s)"
  proof (cases s)
    case (EmbeddedServer e)
    then show ?thesis using s sound by (cases x) (auto simp: stopped_def split: if_splits)
  next
    case (ExternalServer e)
    then have e: "ex_cmd e = None" "one_process e" using s one_process_runs [of e] by (auto simp: stopped_def)
    show ?thesis
    proof (cases x)
      case (OnExternal E y)
      have "ex_cmd (ext_other E y e) = None"
        using e x OnExternal update_stopped
        by (cases y) (auto simp: ext_SetAliveList_def ext_GetOnlineDevice_def Let_def ext_Close_def stopLocked_def processExited_def)
      then show ?thesis
        using sound OnExternal ExternalServer one_process_runs [of "ext_other E y e"] by (simp add: stopped_def)
    qed (use s ExternalServer in simp)
  qed
qed

lemma close_stops: "sound_server s \<Longrightarrow> stopped (server_Close s)"
proof (cases s)
  case (EmbeddedServer e)
  assume "sound_server s"
  then show ?thesis using EmbeddedServer by (auto simp: stopped_def Close_def)
next
  case (ExternalServer e)
  assume "sound_server s"
  then have "one_process (ext_Close e)" "ex_cmd (ext_Close e) = None"
    using ExternalServer stop_one by (auto simp: ext_Close_def stopLocked_def split: option.split)
  then show ?thesis using ExternalServer one_process_runs [of "ext_Close e"] by (simp add: stopped_def)
qed

lemma newServer_stopped:
  assumes "newServer env cfg keyStore node users alive w = (Inr srv, ks, w')"
  shows "stopped srv" and "srv = EmbeddedServer e \<Longrightarrow> \<not> em_closed e"
proof -
  have emb: "\<not> em_listening e" "\<not> em_closed e"
    if "replaceUsersLocked K it us (emptyEmbedded node al cf k sc tb) v = (r, e, v')" for K it us al cf k sc tb v r e v'
  proof -
    have "e = fst (snd (replaceUsersLocked K it us (emptyEmbedded node al cf k sc tb) v))" using that by simp
    then show "\<not> em_listening e" "\<not> em_closed e" by (simp_all add: replaceUsersLocked_def emptyEmbedded_def)
  qed
  have ext: "ex_cmd e = None \<and> one_process e"
    if "ext_replaceUsersLocked K it us e0 v = (r, e, v')" "ex_cmd e0 = None" "ex_procs e0 = []" for K it us e0 v r e v'
  proof -
    have "e = fst (snd (ext_replaceUsersLocked K it us e0 v))" using that by simp
    then have "ex_cmd e = None" "ex_procs e = []" using that by (simp_all add: ext_replaceUsersLocked_def)
    then show ?thesis by (simp add: one_process_def running_def)
  qed
  show "srv = EmbeddedServer e \<Longrightarrow> \<not> em_closed e"
    using assms
    by (auto simp: newServer_def NewEmbedded_def split: if_splits prod.splits sum.splits option.splits dest: emb)
  show "stopped srv"
  proof (cases "EngineName cfg = EngineExternal")
    case True
    then obtain e0 r e v where x: "ext_replaceUsersLocked (en_key env) (en_order env) users e0 w = (r, e, v)"
      "ex_cmd e0 = None" "ex_procs e0 = []" "srv = ExternalServer e"
      using assms by (auto simp: newServer_def NewExternal_def Let_def split: prod.splits sum.splits option.splits)
    show ?thesis using ext [OF x(1-3)] x(4) one_process_runs [of e] by (simp add: stopped_def)
  next
    case False
    then show ?thesis
      using assms
      by (auto simp: newServer_def NewEmbedded_def stopped_def split: prod.splits sum.splits option.splits dest: emb)
  qed
qed

lemma Start_sound:
  assumes "server_Start env s w = (r, s', w')" and "stopped s" and "\<And>e. s = EmbeddedServer e \<Longrightarrow> \<not> em_closed e"
  shows "sound_server s'" and "r \<noteq> None \<Longrightarrow> stopped s'"
proof -
  have "sound_server s' \<and> (r \<noteq> None \<longrightarrow> stopped s')"
  proof (cases s)
    case (EmbeddedServer e)
    then show ?thesis using assms
      by (auto simp: Start_def stopped_def split: if_splits)
  next
    case (ExternalServer e)
    then have e: "ex_cmd e = None" "one_process e" using assms(2) one_process_runs [of e] by (auto simp: stopped_def)
    obtain q e' where q: "ext_Start (en_cfg env) (en_starts env) e w = (q, e', w')" "r = map_option FromExternal q"
        "s' = ExternalServer e'"
      using assms(1) ExternalServer by (auto split: prod.splits)
    have one: "one_process e'"
      using ext_keeps_one [OF start_keeps [of "en_cfg env" "en_starts env" w] e(2)] q(1) by simp
    moreover have "ex_cmd e' = None" if "q \<noteq> None"
      using q(1) that e(1) apply_stopped [OF e(1), of "en_cfg env" "en_starts env" w]
      by (auto simp: ext_Start_def startLocked_def split: option.splits prod.splits if_splits)
    ultimately show ?thesis using q(2,3) one_process_runs [OF one] by (auto simp: stopped_def)
  qed
  then show "sound_server s'" and "r \<noteq> None \<Longrightarrow> stopped s'" by blast+
qed

section \<open>One server at a time\<close>

text \<open>
  What a server does beside its controller never starts it: only the controller calls \<open>Start\<close>,
  and it does so in \<open>ctl_Start\<close>.
\<close>

definition calm :: "(source, ('p, 't, 'sc) server_op) activity \<Rightarrow> bool" where
  "calm a \<longleftrightarrow> (case a of Moved _ _ _ \<Rightarrow> True | Other x \<Rightarrow> tame x)"

lemma folded:
  "(\<And>x s. Q x \<Longrightarrow> P s \<Longrightarrow> P (f x s)) \<Longrightarrow> list_all Q xs \<Longrightarrow> P s \<Longrightarrow> P (fold f xs s)"
  by (induction xs arbitrary: s) simp_all

lemma ctl_next_keeps:
  fixes P :: "'t server \<Rightarrow> bool" and ev :: "('p, 't, 'sc) ctl_event"
  assumes move: "\<And>c a b s. P s \<Longrightarrow> P (server_move c a b s)"
    and other: "\<And>(x :: ('p, 't, 'sc) server_op) s. tame x \<Longrightarrow> P s \<Longrightarrow> P (server_other x s)"
    and confirm: "\<And>(env :: ('p, 't, 'sc) env) ts s. P s \<Longrightarrow> P (server_ConfirmUserTraffic env ts s)"
    and srv: "ct_server c = Some srv" "P srv" and calm: "list_all calm (ctl_acts ev)"
  shows "\<exists>srv'. ct_server (ctl_next ev c) = Some srv' \<and> P srv'"
proof -
  have act: "P (serve_act a s)" if "calm a" "P s" for s and a :: "(source, ('p, 't, 'sc) server_op) activity"
    using that move other by (cases a) (simp_all add: calm_def)
  show ?thesis
  proof (cases ev)
    case (Served a)
    then show ?thesis using srv calm act by (simp add: ctl_acts_def)
  next
    case (Polled env w)
    then show ?thesis
      using monitor_server [OF srv(1), of env w] folded [of tame P server_other, OF other _ srv(2)] by fastforce
  next
    case (Reported env as)
    then have "P (fold serve_act as srv)" using folded [of calm P serve_act, OF act _ srv(2)] calm by (simp add: ctl_acts_def)
    then have "P (if delivered_by env c = [] then fold serve_act as srv
        else server_ConfirmUserTraffic env (delivered_by env c) (fold serve_act as srv))"
      using confirm by simp
    then show ?thesis
      using report_server [OF srv(1), of env "fold serve_act as"] Reported folded [of tame P server_other, OF other] by fastforce
  qed
qed

lemma ctl_next_none: "ct_server c = None \<Longrightarrow> ct_server (ctl_next ev c) = None"
proof (cases ev)
  case (Polled env w)
  assume c: "ct_server c = None"
  show ?thesis
  proof (cases rule: monitor_cases [of env c w])
    case (users api alive newUsers)
    have "ct_server (fst (applyUsers env newUsers (polled api alive c) w)) = None"
      using c by (simp add: applyUsers_def case_prod_beta)
    then show ?thesis using users Polled by simp
  qed (use c Polled in simp_all)
qed (simp_all add: reportUserTrafficTask_def case_prod_beta)

lemma ctl_Start_servers:
  assumes "ctl_Start env c w = (r, c', w')" and "ct_server c = None"
  shows "r = None \<Longrightarrow> \<exists>srv. ct_server c' = Some srv \<and> sound_server srv"
    and "r \<noteq> None \<Longrightarrow> ct_server c' = Some srv \<Longrightarrow> stopped srv"
proof -
  obtain s c1 w1 where s: "startupPanelSnapshot env c w = (s, c1, w1)" using prod_cases3 by blast
  have none: "ct_server c1 = None"
    using s assms(2) by (auto simp: startupPanelSnapshot_def split: prod.splits sum.splits if_splits)
  have "(r = None \<longrightarrow> (\<exists>srv. ct_server c' = Some srv \<and> sound_server srv)) \<and>
      (r \<noteq> None \<longrightarrow> (\<forall>srv. ct_server c' = Some srv \<longrightarrow> stopped srv))"
  proof (cases s)
    case (Inl err)
    then show ?thesis using assms(1) s none by (auto simp: ctl_Start_def)
  next
    case (Inr snap)
    obtain node users alive where snap: "snap = (node, users, alive)" by (cases snap)
    obtain q ks w2 where q: "newServer env (ct_runtime c1) (ct_keyStore c1) node users alive w1 = (q, ks, w2)"
      using prod_cases3 by blast
    show ?thesis
    proof (cases q)
      case (Inl err)
      then show ?thesis using assms(1) s Inr snap q none by (auto simp: ctl_Start_def Let_def)
    next
      case new: (Inr srv)
      obtain t srv' w3 where t: "server_Start env srv w2 = (t, srv', w3)" using prod_cases3 by blast
      have N: "stopped srv" "\<And>e. srv = EmbeddedServer e \<Longrightarrow> \<not> em_closed e"
        using newServer_stopped [OF q [unfolded new]] by blast+
      note S = Start_sound [OF t N]
      have "r = map_option ServerFailed t \<and> ct_server c' = Some srv'"
        using assms(1) s Inr snap q new t by (auto simp: ctl_Start_def Let_def startTasks_def split: option.splits)
      then show ?thesis using S by auto
    qed
  qed
  then show "r = None \<Longrightarrow> \<exists>srv. ct_server c' = Some srv \<and> sound_server srv"
    and "r \<noteq> None \<Longrightarrow> ct_server c' = Some srv \<Longrightarrow> stopped srv" by blast+
qed

definition at_rest :: "'t controller \<Rightarrow> bool" where
  "at_rest c \<longleftrightarrow> (case ct_server c of None \<Rightarrow> True | Some srv \<Rightarrow> stopped srv)"

definition node_shape :: "'t node \<Rightarrow> bool" where
  "node_shape n \<longleftrightarrow> (nd_phase n = Serving \<longleftrightarrow> nd_controller n \<noteq> None)"

definition node_ok :: "'t node \<Rightarrow> bool" where
  "node_ok n \<longleftrightarrow> list_all at_rest (nd_left n) \<and>
     (case nd_controller n of None \<Rightarrow> True | Some c \<Rightarrow> \<exists>srv. ct_server c = Some srv \<and> sound_server srv)"

fun calm_event :: "('p, 't, 'sc) node_event \<Rightarrow> bool" where
  "calm_event (Runs ev) \<longleftrightarrow> list_all calm (ctl_acts ev)"
| "calm_event (Late i ev) \<longleftrightarrow> list_all calm (ctl_acts ev)"
| "calm_event _ \<longleftrightarrow> True"

lemma node_shape_step: "node_shape n \<Longrightarrow> node_next cfg rt ev n = Some n' \<Longrightarrow> node_shape n'"
  by (cases ev) (auto simp: node_shape_def Let_def split: if_splits option.splits prod.splits node_phase.splits)

lemma late_at_rest:
  fixes ev :: "('p, 't, 'sc) ctl_event"
  assumes "at_rest c" and "list_all calm (ctl_acts ev)"
  shows "at_rest (ctl_event_on ev reload c)"
proof (cases "ct_server c")
  case None
  then show ?thesis using ctl_next_none [of "c\<lparr>ct_reloadCh := reload\<rparr>" ev] by (simp add: at_rest_def ctl_event_on_def)
next
  case (Some srv)
  have "\<exists>srv'. ct_server (ctl_next ev (c\<lparr>ct_reloadCh := reload\<rparr>)) = Some srv' \<and> stopped srv'"
    by (rule ctl_next_keeps [OF stopped_steps, of _ srv]) (use assms Some in \<open>simp_all add: at_rest_def\<close>)
  then show ?thesis by (auto simp: at_rest_def ctl_event_on_def)
qed

lemma runs_sound:
  fixes ev :: "('p, 't, 'sc) ctl_event"
  assumes "ct_server c = Some srv" "sound_server srv" and "list_all calm (ctl_acts ev)"
  shows "\<exists>srv'. ct_server (ctl_event_on ev reload c) = Some srv' \<and> sound_server srv'"
  unfolding ctl_event_on_def
  by (rule ctl_next_keeps [where P = sound_server, of _ srv]) (use assms in \<open>simp_all add: sound_steps\<close>)

lemma close_at_rest: "ct_server c = Some srv \<Longrightarrow> sound_server srv \<Longrightarrow> at_rest (ctl_Close c)"
  by (simp add: at_rest_def ctl_Close_def close_stops)

lemma node_ok_step:
  assumes "node_ok n" and "node_next cfg rt ev n = Some n'" and "calm_event ev"
  shows "node_ok n'"
proof (cases ev)
  case (Begins env ks w)
  let ?c = "NewController (fst (NewClient cfg)) cfg rt ks (nd_reloadCh n)"
  obtain r c w' where s: "ctl_Start env ?c w = (r, c, w')" using prod_cases3 by blast
  have none: "ct_server ?c = None" by (simp add: NewController_def)
  have "(r = None \<longrightarrow> (\<exists>srv. ct_server c = Some srv \<and> sound_server srv)) \<and> (r \<noteq> None \<longrightarrow> at_rest c)"
    using ctl_Start_servers [OF s none] by (auto simp: at_rest_def split: option.split)
  then show ?thesis
    using assms(1,2) Begins s by (auto simp: node_ok_def split: if_splits option.splits)
next
  case (Runs e)
  then show ?thesis using assms runs_sound by (fastforce simp: node_ok_def Let_def split: option.splits)
next
  case (Late i e)
  have "at_rest (ctl_event_on e (nd_reloadCh n) c)" if "at_rest c" for c
    by (rule late_at_rest [OF that]) (use assms(3) Late in simp)
  then show ?thesis using assms(1,2) Late
    by (auto simp: node_ok_def Let_def list_all_length nth_list_update split: if_splits)
qed (use assms in \<open>auto simp: node_ok_def Let_def close_at_rest split: if_splits option.splits node_phase.splits\<close>)

lemma node_run_step:
  "node_run cfg rt (ev # evs) n = Some n' \<Longrightarrow> \<exists>n1. node_next cfg rt ev n = Some n1 \<and> node_run cfg rt evs n1 = Some n'"
  by (cases "node_next cfg rt ev n") auto

lemma node_ok_run:
  "node_ok n \<Longrightarrow> node_run cfg rt evs n = Some n' \<Longrightarrow> list_all calm_event evs \<Longrightarrow> node_ok n'"
proof (induction evs arbitrary: n)
  case (Cons ev evs)
  obtain n1 where "node_next cfg rt ev n = Some n1" "node_run cfg rt evs n1 = Some n'"
    using node_run_step [OF Cons.prems(2)] by blast
  then show ?case using Cons.IH [of n1] Cons.prems(1,3) node_ok_step by fastforce
qed simp

lemma node_shape_run: "node_shape n \<Longrightarrow> node_run cfg rt evs n = Some n' \<Longrightarrow> node_shape n'"
proof (induction evs arbitrary: n)
  case (Cons ev evs)
  obtain n1 where "node_next cfg rt ev n = Some n1" "node_run cfg rt evs n1 = Some n'"
    using node_run_step [OF Cons.prems(2)] by blast
  then show ?case using Cons.IH [of n1] Cons.prems(1) node_shape_step by blast
qed simp

text \<open>
  C7. One server at a time. Whatever the panel, the disk and the clients do, through starts
  that fail, reloads and the final stop, and with task runs of earlier controllers still under
  way, no server but the current controller's is running: a failed start leaves nothing
  behind, a closed one is never brought back, and the current one has at most one process.
\<close>

theorem one_server_per_node:
  assumes "node_run cfg rt evs newNode = Some n" and "list_all calm_event evs"
  shows "list_all (\<lambda>c. \<not> (case ct_server c of None \<Rightarrow> False | Some srv \<Rightarrow> server_running srv)) (nd_left n) \<and>
    (nd_phase n \<noteq> Serving \<longrightarrow> nd_controller n = None) \<and>
    (\<forall>c e p q. nd_controller n = Some c \<longrightarrow> ct_server c = Some (ExternalServer e) \<longrightarrow>
      running e p \<longrightarrow> running e q \<longrightarrow> p = q)"
proof -
  have ok: "node_ok n" by (rule node_ok_run [OF _ assms]) (simp add: node_ok_def newNode_def)
  have shape: "node_shape n" by (rule node_shape_run [OF _ assms(1)]) (simp add: node_shape_def newNode_def)
  have rest: "list_all at_rest (nd_left n)" using ok by (simp add: node_ok_def)
  have "list_all (\<lambda>c. \<not> (case ct_server c of None \<Rightarrow> False | Some srv \<Rightarrow> server_running srv)) (nd_left n)"
    using rest by (rule list.pred_mono_strong) (auto simp: at_rest_def stopped_def split: option.splits)
  moreover have "one_process e" if "nd_controller n = Some c" "ct_server c = Some (ExternalServer e)" for c e
    using ok that by (simp add: node_ok_def)
  then have "p = q" if "nd_controller n = Some c" "ct_server c = Some (ExternalServer e)" "running e p" "running e q" for c e p q
    using that unfolding one_process_def by (metis option.inject)
  ultimately show ?thesis using shape by (auto simp: node_shape_def)
qed

theorem one_server_per_node_witness:
  "\<exists>n. node_run sampleConf (autoConfig 1) [Begins sampleWorld (sampleStore None) emptyOS, Runs (Polled sampleWorld savedOS), Cancels, Leaves]
      newNode = Some n \<and> nd_phase n = Returned \<and>
    list_all (\<lambda>c. \<not> (case ct_server c of None \<Rightarrow> False | Some srv \<Rightarrow> server_running srv)) (nd_left n)"
proof -
  let ?evs = "[Begins sampleWorld (sampleStore None) emptyOS, Runs (Polled sampleWorld savedOS), Cancels, Leaves]"
  have start: "ctl_Start sampleWorld (NewController (fst (NewClient sampleConf)) sampleConf (autoConfig 1) (sampleStore None) False) emptyOS =
      (None, startedController, savedOS)"
    using sample_Start by (simp add: sampleController_def)
  obtain n where n: "node_run sampleConf (autoConfig 1) ?evs newNode = Some n" "nd_phase n = Returned"
    using start by (simp add: newNode_def Let_def)
  have "list_all calm_event ?evs" by (simp add: ctl_acts_def)
  from one_server_per_node [OF n(1) this] n show ?thesis by blast
qed

section \<open>The loop ends\<close>

fun own :: "('p, 't, 'sc) node_event \<Rightarrow> bool" where
  "own (Begins _ _ _) \<longleftrightarrow> True"
| "own Reloads \<longleftrightarrow> True"
| "own Leaves \<longleftrightarrow> True"
| "own Wakes \<longleftrightarrow> True"
| "own _ \<longleftrightarrow> False"

fun laps :: "node_phase \<Rightarrow> nat" where
  "laps Serving = 3"
| "laps (Sleeping d) = 2"
| "laps AtTop = 1"
| "laps Returned = 0"

lemma laps_step:
  "nd_cancelled n \<Longrightarrow> node_next cfg rt ev n = Some n' \<Longrightarrow>
     nd_cancelled n' \<and> laps (nd_phase n') + (if own ev then 1 else 0) \<le> laps (nd_phase n)"
  by (cases ev) (auto simp: Let_def split: if_splits option.splits node_phase.splits)

lemma laps_run:
  "nd_cancelled n \<Longrightarrow> node_run cfg rt evs n = Some n' \<Longrightarrow> laps (nd_phase n') + length (filter own evs) \<le> laps (nd_phase n)"
proof (induction evs arbitrary: n)
  case (Cons ev evs)
  obtain n1 where n1: "node_next cfg rt ev n = Some n1" "node_run cfg rt evs n1 = Some n'"
    using node_run_step [OF Cons.prems(2)] by blast
  show ?case
    using laps_step [OF Cons.prems(1) n1(1)] Cons.IH [OF _ n1(2)] by (auto split: if_splits)
qed simp



section \<open>What a reload loses\<close>

lemma close_pending: "server_ok s \<Longrightarrow> server_pending d u (server_Close s) = server_pending d u s"
proof (cases s)
  case (EmbeddedServer e)
  assume "server_ok s"
  then show ?thesis using EmbeddedServer keepsD(2) [OF keeps_simple(6), of e d u] by simp
next
  case (ExternalServer e)
  then show ?thesis using ext_pending_same [of "ext_Close e" e d u] by (simp add: ext_Close_def)
qed

text \<open>
  C35. A reload drops the traffic that has not been reported. The controller is closed without a
  last report and the next one starts a new server from zero: what was pending for a user
  when the panel changed the node stays in the closed server, and nobody reads it again.
\<close>

theorem reload_drops_traffic:
  assumes "node_run cfg rt [Reloads, Wakes, Begins env ks w] n = Some n'" and "nd_phase n' = Serving"
    and "nd_controller n = Some c" and "ct_server c = Some srv" and "server_ok srv"
  shows "\<exists>old new c' srv'. nd_left n' = nd_left n @ [old] \<and> ct_server old = Some new \<and>
    (\<forall>d u. server_pending d u new = server_pending d u srv) \<and>
    nd_controller n' = Some c' \<and> ct_server c' = Some srv' \<and> (\<forall>d u. server_pending d u srv' = 0)"
proof -
  let ?c = "NewController (fst (NewClient cfg)) cfg rt ks False"
  obtain r c' w' where s: "ctl_Start env ?c w = (r, c', w')" using prod_cases3 by blast
  have "nd_left n' = nd_left n @ [ctl_Close c] \<and> r = None \<and> nd_controller n' = Some c'"
    using assms(1-3) s by (auto split: option.splits node_phase.splits if_splits)
  moreover from this s obtain srv' where "ct_server c' = Some srv'" "\<forall>d u. server_pending d u srv' = 0"
    using ctl_Start_ok [of env ?c w c' w'] by auto
  moreover have "ct_server (ctl_Close c) = Some (server_Close srv)" using assms(4) by (simp add: ctl_Close_def)
  ultimately show ?thesis using close_pending [OF assms(5)] by blast
qed

definition busyNode :: "unit node" where
  "busyNode = \<lparr>nd_phase = Serving, nd_cancelled = False, nd_reloadCh = True,
     nd_controller = Some (startedController\<lparr>ct_server := Some (EmbeddedServer busyEngine)\<rparr>), nd_left = []\<rparr>"

theorem reload_drops_traffic_witness:
  "\<exists>n' old srv c' srv'. node_run sampleConf (autoConfig 1) [Reloads, Wakes, Begins sampleWorld (sampleStore None) emptyOS] busyNode = Some n' \<and>
    nd_left n' = [old] \<and> ct_server old = Some srv \<and> server_pending Up ''a'' srv = 700 \<and>
    nd_controller n' = Some c' \<and> ct_server c' = Some srv' \<and> server_pending Up ''a'' srv' = 0"
proof -
  have start: "ctl_Start sampleWorld (NewController (fst (NewClient sampleConf)) sampleConf (autoConfig 1) (sampleStore None) False) emptyOS =
      (None, startedController, savedOS)"
    using sample_Start by (simp add: sampleController_def)
  obtain n' where n': "node_run sampleConf (autoConfig 1) [Reloads, Wakes, Begins sampleWorld (sampleStore None) emptyOS] busyNode = Some n'"
    "nd_phase n' = Serving"
    using start by (simp add: busyNode_def)
  have c: "nd_controller busyNode = Some (startedController\<lparr>ct_server := Some (EmbeddedServer busyEngine)\<rparr>)" "nd_left busyNode = []"
    by (simp_all add: busyNode_def)
  have "server_ok (EmbeddedServer busyEngine)" "server_pending Up ''a'' (EmbeddedServer busyEngine) = 700"
    using busyEngine_ok by simp_all
  with reload_drops_traffic [OF n' c(1)] n'(1) c(2) show ?thesis by auto
qed

section \<open>Logging\<close>

text \<open>
  \<open>setupLog\<close>: logrus' \<open>ParseLevel\<close> is the argument. The level is set before the output is
  opened, so a failure leaves it.
\<close>

datatype log_error = BadLevel | LogMkdir os_error | LogOpen os_error

record 'l logger =
  lg_Level :: 'l
  lg_Compact :: bool
  lg_Output :: "string option"

definition OpenAppend :: "string \<Rightarrow> os \<Rightarrow> os_error option \<times> os" where
  "OpenAppend p w =
     (if os_nocreate w p then (Some CreateFault, w)
      else (None, if os_files w p = None then w\<lparr>os_files := (os_files w)(p \<mapsto> '''')\<rparr> else w))"

definition setupLog ::
  "(string \<Rightarrow> 'l option) \<Rightarrow> LogConfig \<Rightarrow> 'l logger \<Rightarrow> os \<Rightarrow> log_error option \<times> 'l logger \<times> os"
where
  "setupLog ParseLevel cfg lg w =
     (case ParseLevel (lc_Level cfg) of
        None \<Rightarrow> (Some BadLevel, lg, w)
      | Some level \<Rightarrow>
          let lg1 = lg\<lparr>lg_Level := level, lg_Compact := True\<rparr> in
          if lc_Output cfg = '''' then (None, lg1, w)
          else case MkdirFor (lc_Output cfg) w of
            Some err \<Rightarrow> (Some (LogMkdir err), lg1, w)
          | None \<Rightarrow>
              (case OpenAppend (lc_Output cfg) w of
                 (Some err, w') \<Rightarrow> (Some (LogOpen err), lg1, w')
               | (None, w') \<Rightarrow> (None, lg1\<lparr>lg_Output := Some (lc_Output cfg)\<rparr>, w')))"

text \<open>
  A line of the log: the time and level as text, the message, and the fields in the order of
  their names, each value as \<open>fmt.Sprint\<close> gives it. \<open>quote\<close> is \<open>strconv.Quote\<close>.
\<close>

text \<open>\<open>strings.ToUpper\<close> on a level name of logrus, which is ASCII.\<close>

definition upperLevel :: "string \<Rightarrow> string" where
  "upperLevel s = map (\<lambda>c. if 97 \<le> (of_char c :: nat) \<and> (of_char c :: nat) \<le> 122
     then char_of ((of_char c :: nat) - 32) else c) s"

lemma upperLevel_info: "upperLevel ''info'' = ''INFO''"
  by code_simp

definition compactLogValue :: "(string \<Rightarrow> string) \<Rightarrow> string \<Rightarrow> string" where
  "compactLogValue quote value =
     (if value = '''' then quote value
      else if list_ex (\<lambda>c. c \<in> set ([CHR 0x20, CHR 0x09, CHR 0x0D, CHR 0x0A, CHR 0x22])) value then quote value
      else value)"

definition logFormat ::
  "(string \<Rightarrow> string) \<Rightarrow> string \<Rightarrow> string \<Rightarrow> string \<Rightarrow> (string \<rightharpoonup> string) \<Rightarrow> string"
where
  "logFormat quote time level message data =
     time @ '' ['' @ upperLevel level @ ''] '' @ message @
     concat (map (\<lambda>key. '' '' @ key @ ''='' @ compactLogValue quote (the (data key))) (sorted_list_of_set (dom data))) @
     [CHR 0x0A]"

text \<open>
  No value can forge a line: if the quoted form has no line break (as \<open>strconv.Quote\<close>
  promises), a field's text has none, whatever a client sent.
\<close>

lemma log_value_single_line:
  "CHR 0x0A \<notin> set (quote v) \<Longrightarrow> CHR 0x0A \<notin> set (compactLogValue quote v)"
  by (auto simp: compactLogValue_def list_ex_iff)

end
